theory Spec2Isabelle
  imports Main
begin

section \<open>Outbounds, providers and the services a Selector consults\<close>

text \<open>
  An \<open>adapter.Outbound\<close> is an interface value: a pointer to some outbound object that
  answers \<open>Tag()\<close>. Go compares two such values by the pointer, so the model keeps the
  address next to the tag. A nil interface value is \<open>None\<close> of \<open>outbound option\<close>.
\<close>

datatype outbound = Outbound (addr: nat) (Tag: string)

text \<open>
  The part of \<open>adapter.Provider\<close> that the Selector calls: \<open>Tag()\<close>, \<open>Outbounds()\<close> and
  \<open>IsUpdating()\<close>. A provider is a shared object that reloads on its own, so the Selector
  holds its address and every call reads the object's current state from the store
  \<open>provider_state\<close> of the world.
\<close>

record provider =
  provider_Tag :: string
  Outbounds :: "outbound list"
  IsUpdating :: bool

type_synonym provider_ref = nat

text \<open>
  Modelled from the spec: the persisted selection store (\<open>adapter.CacheFile\<close>), whose code
  is not part of the excerpt. \<open>LoadSelected\<close> answers the tag stored for a group, or the
  empty string; \<open>StoreSelected\<close> either records the tag or returns an error, which
  \<open>store_fails\<close> decides.
\<close>

record cache_file =
  LoadSelected :: "string \<Rightarrow> string"
  store_fails :: bool

type_synonym cache_ref = nat

text \<open>What a call leaves behind outside the Selector, in the order it happened.\<close>

datatype event =
    OutboundsCalled string
  | StoreSelectedCalled string string
  | LoggedError
  | Interrupted bool

text \<open>
  Everything outside the Selector: the outbound manager (\<open>Outbound(tag)\<close>), the provider
  manager (\<open>Providers()\<close> and \<open>Provider(tag)\<close>, answering \<open>(nil, false)\<close> for an unknown
  tag), the provider objects, the cache file registered in the context (if any), and the
  trace of calls made so far.
\<close>

record world =
  outbound_manager :: "string \<rightharpoonup> outbound"
  manager_Providers :: "provider_ref list"
  manager_Provider :: "string \<rightharpoonup> provider_ref"
  provider_state :: "provider_ref \<Rightarrow> provider"
  cache_files :: "cache_ref \<Rightarrow> cache_file"
  ctx_cacheFile :: "cache_ref option"
  trace :: "event list"

section \<open>The Selector\<close>

text \<open>
  A compiled \<open>*regexp.Regexp\<close> is used through \<open>MatchString\<close> only; a nil pattern is
  \<open>None\<close>.
\<close>

type_synonym regexp = "string \<Rightarrow> bool"

definition MatchString :: "regexp \<Rightarrow> string \<Rightarrow> bool" where
  "MatchString re t = re t"

text \<open>
  The fields of \<open>Selector\<close>. \<open>adapter_Tag\<close> and \<open>Dependencies\<close> are what the embedded
  \<open>outbound.Adapter\<close> answers to \<open>Tag()\<close> and \<open>Dependencies()\<close> (the configured static
  tags). \<open>outboundsCache\<close> maps a provider tag to a slice that is only ever built by
  \<open>append\<close> from nil, so the slice is nil exactly when it is empty, and a missing key
  reads as nil as well: the model uses the empty list for all three. In \<open>providers\<close> a key
  can be bound to a nil provider, hence the inner option.
\<close>

record selector =
  adapter_Tag :: string
  Dependencies :: "string list"
  cacheFile :: "cache_ref option"
  tags :: "string list"
  defaultTag :: string
  outbounds :: "string \<rightharpoonup> outbound"
  outboundsCache :: "string \<Rightarrow> outbound list"
  providers :: "string \<rightharpoonup> provider_ref option"
  selected :: "outbound option"
  interruptExternalConnections :: bool
  include_re :: "regexp option"
  exclude_re :: "regexp option"
  providerTags :: "string list"
  useAllProviders :: bool

datatype error =
    MissingTags
  | OutboundNotFound nat string
  | DefaultOutboundNotFound string
  | ProviderNotFound string

datatype panic = NilDereference | IndexOutOfRange

subsection \<open>filterOutbounds\<close>

text \<open>Lines 248-254: resolve the static tags in order; the first unknown tag is an error.\<close>

fun static_loop ::
  "(string \<rightharpoonup> outbound) \<Rightarrow> nat \<Rightarrow> string list \<Rightarrow> (string \<rightharpoonup> outbound)
    \<Rightarrow> error + (string \<rightharpoonup> outbound)" where
  "static_loop om i [] outboundByTag = Inr outboundByTag"
| "static_loop om i (t # ts) outboundByTag =
     (case om t of
        None \<Rightarrow> Inl (OutboundNotFound i t)
      | Some detour \<Rightarrow> static_loop om (Suc i) ts (outboundByTag(t \<mapsto> detour)))"

text \<open>Lines 263-266: append a cached list.\<close>

fun cached_loop ::
  "outbound list \<Rightarrow> string list \<times> (string \<rightharpoonup> outbound)
    \<Rightarrow> string list \<times> (string \<rightharpoonup> outbound)" where
  "cached_loop [] acc = acc"
| "cached_loop (detour # ds) (tgs, outboundByTag) =
     cached_loop ds (tgs @ [Tag detour], outboundByTag(Tag detour \<mapsto> detour))"

text \<open>Lines 271-282: fetch a provider's list and filter it by include, then exclude.\<close>

fun fetch_loop ::
  "selector \<Rightarrow> outbound list \<Rightarrow> string list \<times> outbound list \<times> (string \<rightharpoonup> outbound)
    \<Rightarrow> string list \<times> outbound list \<times> (string \<rightharpoonup> outbound)" where
  "fetch_loop s [] acc = acc"
| "fetch_loop s (detour # ds) (tgs, cache, outboundByTag) =
     (let t = Tag detour in
      if (case include_re s of None \<Rightarrow> False | Some re \<Rightarrow> \<not> MatchString re t)
        then fetch_loop s ds (tgs, cache, outboundByTag)
      else if (case exclude_re s of None \<Rightarrow> False | Some re \<Rightarrow> MatchString re t)
        then fetch_loop s ds (tgs, cache, outboundByTag)
      else fetch_loop s ds (tgs @ [t], cache @ [detour], outboundByTag(t \<mapsto> detour)))"

text \<open>
  Lines 261-284: the loop over the bound provider tags. The accumulator is the tag list,
  the map, the cache (written in place by the source, and read again by later rounds) and
  the \<open>Outbounds()\<close> calls made. Calling \<open>Outbounds()\<close> on a nil provider panics.
\<close>

fun provider_loop ::
  "selector \<Rightarrow> world \<Rightarrow> string \<Rightarrow> string list
    \<Rightarrow> string list \<times> (string \<rightharpoonup> outbound) \<times> (string \<Rightarrow> outbound list) \<times> event list
    \<Rightarrow> panic + (string list \<times> (string \<rightharpoonup> outbound) \<times> (string \<Rightarrow> outbound list) \<times> event list)"
  where
  "provider_loop s w tag [] acc = Inr acc"
| "provider_loop s w tag (providerTag # pts) (tgs, outboundByTag, cache, evs) =
     (if providerTag \<noteq> tag \<and> cache providerTag \<noteq> [] then
        (case cached_loop (cache providerTag) (tgs, outboundByTag) of
           (tgs', outboundByTag') \<Rightarrow> provider_loop s w tag pts (tgs', outboundByTag', cache, evs))
      else
        (case (case providers s providerTag of None \<Rightarrow> None | Some p \<Rightarrow> p) of
           None \<Rightarrow> Inl NilDereference
         | Some p \<Rightarrow>
            (case fetch_loop s (Outbounds (provider_state w p)) (tgs, [], outboundByTag) of
               (tgs', c, outboundByTag') \<Rightarrow>
                 provider_loop s w tag pts
                   (tgs', outboundByTag', cache(providerTag := c),
                    evs @ [OutboundsCalled providerTag]))))"

text \<open>
  \<open>filterOutbounds(tag)\<close>. The Go function returns \<open>(tags, outboundByTag, err)\<close>, with nil
  slice and nil map next to an error; it also writes \<open>s.outboundsCache\<close>, so the model
  returns the Selector and the world as well. A panic ends the call (nothing in the
  source recovers from one). The tag list starts from the slice \<open>s.Dependencies()\<close>
  and grows by \<open>append\<close>; the model takes the returned slice by value, which is all
  that the callers in this file read of it.
\<close>

definition filterOutbounds ::
  "string \<Rightarrow> selector \<Rightarrow> world
    \<Rightarrow> panic + ((string list \<times> (string \<rightharpoonup> outbound) \<times> error option) \<times> selector \<times> world)" where
  "filterOutbounds tag s w =
     (case static_loop (outbound_manager w) 0 (Dependencies s) Map.empty of
        Inl e \<Rightarrow> Inr (([], Map.empty, Some e), s, w)
      | Inr m0 \<Rightarrow>
          if defaultTag s \<noteq> [] \<and> m0 (defaultTag s) = None
            then Inr (([], Map.empty, Some (DefaultOutboundNotFound (defaultTag s))), s, w)
          else
            (case provider_loop s w tag (providerTags s)
                    (Dependencies s, m0, outboundsCache s, []) of
               Inl p \<Rightarrow> Inl p
             | Inr (tgs, outboundByTag, cache, evs) \<Rightarrow>
                 (let s' = s\<lparr>outboundsCache := cache\<rparr>;
                      w' = w\<lparr>trace := trace w @ evs\<rparr>
                  in if tgs = [] then
                       (case outbound_manager w ''Compatible'' of
                          None \<Rightarrow> Inl NilDereference
                        | Some detour \<Rightarrow>
                            Inr (([Tag detour], outboundByTag(Tag detour \<mapsto> detour), None), s', w'))
                     else Inr ((tgs, outboundByTag, None), s', w'))))"

subsection \<open>outboundSelect\<close>

text \<open>
  Lines 293-315. The result is the pair \<open>(adapter.Outbound, error)\<close>; the last branch
  indexes \<open>s.tags[0]\<close>, which panics on an empty list, and reads the map, which gives nil
  for a missing key.
\<close>

definition outboundSelect ::
  "selector \<Rightarrow> world \<Rightarrow> panic + (outbound option \<times> error option)" where
  "outboundSelect s w =
     (case (if adapter_Tag s \<noteq> [] then
              (case cacheFile s of
                 None \<Rightarrow> None
               | Some c \<Rightarrow>
                   (let sel = LoadSelected (cache_files w c) (adapter_Tag s)
                    in if sel \<noteq> [] then outbounds s sel else None))
            else None) of
        Some detour \<Rightarrow> Inr (Some detour, None)
      | None \<Rightarrow>
          if defaultTag s \<noteq> [] then
            (case outbounds s (defaultTag s) of
               None \<Rightarrow> Inr (None, Some (DefaultOutboundNotFound (defaultTag s)))
             | Some detour \<Rightarrow> Inr (Some detour, None))
          else
            (case tags s of
               [] \<Rightarrow> Inl IndexOutOfRange
             | t # _ \<Rightarrow> Inr (outbounds s t, None)))"

subsection \<open>SelectOutbound\<close>

text \<open>
  Modelled from the spec: \<open>StoreSelected(group, selected)\<close> of the cache file, with the
  call recorded in the trace.
\<close>

definition StoreSelected :: "cache_ref \<Rightarrow> string \<Rightarrow> string \<Rightarrow> world \<Rightarrow> bool \<times> world" where
  "StoreSelected c grp sel w =
     (let w1 = w\<lparr>trace := trace w @ [StoreSelectedCalled grp sel]\<rparr>;
          cf = cache_files w c
      in if store_fails cf then (False, w1)
         else (True, w1\<lparr>cache_files := (cache_files w)(c := cf\<lparr>LoadSelected := (LoadSelected cf)(grp := sel)\<rparr>)\<rparr>))"

text \<open>
  Lines 150-169. \<open>s.selected.Swap(detour) == detour\<close> stores \<open>detour\<close> and compares the
  previous value with it; when they are equal the store changed nothing.
\<close>

definition SelectOutbound :: "string \<Rightarrow> selector \<Rightarrow> world \<Rightarrow> bool \<times> selector \<times> world" where
  "SelectOutbound tag s w =
     (case outbounds s tag of
        None \<Rightarrow> (False, s, w)
      | Some detour \<Rightarrow>
          if selected s = Some detour then (True, s, w)
          else
            (let s' = s\<lparr>selected := Some detour\<rparr>;
                 w1 = (if adapter_Tag s \<noteq> [] then
                         (case ctx_cacheFile w of
                            None \<Rightarrow> w
                          | Some c \<Rightarrow>
                              (case StoreSelected c (adapter_Tag s) tag w of
                                 (True, w') \<Rightarrow> w'
                               | (False, w') \<Rightarrow> w'\<lparr>trace := trace w' @ [LoggedError]\<rparr>))
                       else w)
             in (True, s', w1\<lparr>trace := trace w1 @ [Interrupted (interruptExternalConnections s)]\<rparr>)))"

subsection \<open>Start\<close>

text \<open>Lines 105-110: bind every provider the manager lists, under the provider's own tag.\<close>

fun bind_all ::
  "world \<Rightarrow> provider_ref list \<Rightarrow> string list \<times> (string \<rightharpoonup> provider_ref option)
    \<Rightarrow> string list \<times> (string \<rightharpoonup> provider_ref option)" where
  "bind_all w [] acc = acc"
| "bind_all w (p # ps) (pts, bound) =
     bind_all w ps
       (pts @ [provider_Tag (provider_state w p)],
        bound(provider_Tag (provider_state w p) \<mapsto> Some p))"

text \<open>
  Lines 112-118: bind each configured provider tag to what the manager answers. For an
  unknown tag the source builds an error value with \<open>E.New\<close> and drops it (it is neither
  returned nor logged), then stores the nil provider.
\<close>

fun bind_explicit ::
  "world \<Rightarrow> string list \<Rightarrow> (string \<rightharpoonup> provider_ref option) \<Rightarrow> (string \<rightharpoonup> provider_ref option)" where
  "bind_explicit w [] bound = bound"
| "bind_explicit w (t # ts) bound = bind_explicit w ts (bound(t \<mapsto> manager_Provider w t))"

definition Start :: "selector \<Rightarrow> world \<Rightarrow> panic + (error option \<times> selector \<times> world)" where
  "Start s w =
     (let s1 = (if useAllProviders s then
                  (case bind_all w (manager_Providers w) ([], providers s) of
                     (pts, bound) \<Rightarrow> s\<lparr>providers := bound, providerTags := pts\<rparr>)
                else s\<lparr>providers := bind_explicit w (providerTags s) (providers s)\<rparr>)
      in if length (tags s1) + length (providerTags s1) = 0 then Inr (Some MissingTags, s1, w)
         else
           (case filterOutbounds [] s1 w of
              Inl p \<Rightarrow> Inl p
            | Inr ((tgs, outboundByTag, Some e), s2, w2) \<Rightarrow> Inr (Some e, s2, w2)
            | Inr ((tgs, outboundByTag, None), s2, w2) \<Rightarrow>
                (let s3 = s2\<lparr>tags := tgs, outbounds := outboundByTag, cacheFile := ctx_cacheFile w2\<rparr>
                 in case outboundSelect s3 w2 of
                      Inl p \<Rightarrow> Inl p
                    | Inr (detour, Some e) \<Rightarrow> Inr (Some e, s3, w2)
                    | Inr (detour, None) \<Rightarrow> Inr (None, s3\<lparr>selected := detour\<rparr>, w2))))"

subsection \<open>UpdateOutbounds\<close>

text \<open>
  Lines 222-241. The error of \<open>filterOutbounds\<close> is discarded and its (then nil) results
  are stored all the same. The debounce loop runs over every provider of the manager.
  \<open>detour.Tag()\<close> on a nil \<open>detour\<close> panics.
\<close>

definition UpdateOutbounds ::
  "string \<Rightarrow> selector \<Rightarrow> world \<Rightarrow> panic + (error option \<times> selector \<times> world)" where
  "UpdateOutbounds tag s w =
     (case providers s tag of
        None \<Rightarrow> Inr (Some (ProviderNotFound tag), s, w)
      | Some _ \<Rightarrow>
          (case filterOutbounds tag s w of
             Inl p \<Rightarrow> Inl p
           | Inr ((tgs, outboundByTag, _), s1, w1) \<Rightarrow>
               (let s2 = s1\<lparr>tags := tgs, outbounds := outboundByTag\<rparr>
                in if list_ex (\<lambda>p. provider_Tag (provider_state w1 p) \<noteq> tag
                                    \<and> IsUpdating (provider_state w1 p)) (manager_Providers w1)
                     then Inr (None, s2, w1)
                   else
                     (case outboundSelect s2 w1 of
                        Inl p \<Rightarrow> Inl p
                      | Inr (_, Some e) \<Rightarrow> Inr (None, s2, w1)
                      | Inr (None, None) \<Rightarrow> Inl NilDereference
                      | Inr (Some detour, None) \<Rightarrow>
                          (case SelectOutbound (Tag detour) s2 w1 of
                             (_, s3, w3) \<Rightarrow> Inr (None, s3, w3))))))"

section \<open>ProviderLocal\<close>

text \<open>
  The file-backed provider of \<open>provider/local\<close>. An \<open>option.Outbound\<close> is an opaque
  configuration record to this code: its tag and the rest of it.
\<close>

datatype outbound_option = OutboundOption (option_tag: string) (option_body: string)

datatype local_error =
    TagRequired
  | PathRequired
  | OsError string
  | ParseError string
  | WatcherError string

text \<open>
  What \<open>NewProviderLocal\<close> and \<open>reloadFile\<close> call outside the package, as parameters:
  the path resolution (\<open>filemanager.BasePath\<close> followed by \<open>filepath.Abs\<close>, whose error
  the source drops), \<open>os.Stat\<close> (of which only \<open>ModTime\<close> is read, as seconds),
  \<open>os.ReadFile\<close>, \<open>parser.ParseSubscription\<close> and \<open>fswatch.NewWatcher\<close> (answering a
  watcher handle).
\<close>

record local_env =
  resolve_path :: "string \<Rightarrow> string"
  Stat :: "string \<Rightarrow> local_error + int"
  ReadFile :: "string \<Rightarrow> local_error + string"
  ParseSubscription :: "string \<Rightarrow> local_error + outbound_option list"
  NewWatcher :: "string \<Rightarrow> local_error + nat"

text \<open>The zero \<open>time.Time\<close>, in seconds: midnight of 1 January of the year 1.\<close>

definition zero_time :: int where
  "zero_time = - 62135596800"

text \<open>
  The fields of \<open>ProviderLocal\<close> that the two functions touch. \<open>adapter_updates\<close> stands
  for the embedded \<open>provider.Adapter\<close>, whose code is not part of the excerpt: it keeps
  the arguments of each \<open>UpdateOutbounds(old, new)\<close> call, which returns nothing.
\<close>

record ProviderLocal =
  local_Tag :: string
  lastOutOpts :: "outbound_option list"
  lastUpdated :: int
  watcher :: "nat option"
  updating :: bool
  adapter_updates :: "(outbound_option list \<times> outbound_option list) list"

text \<open>
  \<open>reloadFile\<close> (lines 110-125) writes the provider and returns an error or nil. A
  failing \<open>os.Stat\<close> is skipped: the guard is \<open>err == nil\<close>, and the timestamp keeps
  its value.
\<close>

definition reloadFile :: "local_env \<Rightarrow> string \<Rightarrow> ProviderLocal \<Rightarrow> local_error option \<times> ProviderLocal" where
  "reloadFile env path s =
     (let s1 = (case Stat env path of
                  Inr modTime \<Rightarrow> s\<lparr>lastUpdated := modTime\<rparr>
                | Inl _ \<Rightarrow> s)
      in case ReadFile env path of
           Inl err \<Rightarrow> (Some err, s1)
         | Inr content \<Rightarrow>
             (case ParseSubscription env content of
                Inl err \<Rightarrow> (Some err, s1)
              | Inr outboundOpts \<Rightarrow>
                  (None, s1\<lparr>adapter_updates := adapter_updates s1 @ [(lastOutOpts s1, outboundOpts)],
                            lastOutOpts := outboundOpts\<rparr>)))"

text \<open>
  \<open>NewProviderLocal\<close> (lines 46-90), for a tag and \<open>options.Path\<close>. On an error the Go
  function returns a nil provider.
\<close>

definition NewProviderLocal :: "local_env \<Rightarrow> string \<Rightarrow> string \<Rightarrow> local_error + ProviderLocal" where
  "NewProviderLocal env tag path =
     (if tag = [] then Inl TagRequired
      else if path = [] then Inl PathRequired
      else
        (let provider = \<lparr>local_Tag = tag, lastOutOpts = [], lastUpdated = zero_time,
                          watcher = None, updating = False, adapter_updates = []\<rparr>;
             filePath = resolve_path env path
         in case reloadFile env filePath provider of
              (Some err, _) \<Rightarrow> Inl err
            | (None, provider') \<Rightarrow>
                (case NewWatcher env filePath of
                   Inl err \<Rightarrow> Inl err
                 | Inr wt \<Rightarrow> Inr (provider'\<lparr>watcher := Some wt\<rparr>))))"

section \<open>The specification's vocabulary\<close>

text \<open>
  The definitions of this section are not translations of code. They restate, in the
  words of the specification, what the loops of \<open>filterOutbounds\<close> are meant to compute,
  so that the loops can be compared with them.
\<close>

text \<open>
  A tag passes the filters when no include pattern is configured or the tag matches it,
  and it is not the case that an exclude pattern is configured and the tag matches it.
\<close>

definition keeps :: "selector \<Rightarrow> string \<Rightarrow> bool" where
  "keeps s t =
     ((case include_re s of None \<Rightarrow> True | Some re \<Rightarrow> MatchString re t)
      \<and> \<not> (case exclude_re s of None \<Rightarrow> False | Some re \<Rightarrow> MatchString re t))"

definition survivors :: "selector \<Rightarrow> outbound list \<Rightarrow> outbound list" where
  "survivors s ds = filter (\<lambda>d. keeps s (Tag d)) ds"

text \<open>Entering an outbound into the candidate map under its own tag.\<close>

definition register :: "outbound \<Rightarrow> (string \<rightharpoonup> outbound) \<Rightarrow> (string \<rightharpoonup> outbound)" where
  "register d m = m(Tag d \<mapsto> d)"

text \<open>What the provider bound to a tag currently lists (nothing for a nil binding).\<close>

definition bound_Outbounds :: "selector \<Rightarrow> world \<Rightarrow> string \<Rightarrow> outbound list" where
  "bound_Outbounds s w p =
     (case providers s p of Some (Some r) \<Rightarrow> Outbounds (provider_state w r) | _ \<Rightarrow> [])"

text \<open>
  What one bound provider tag adds to the candidates in a rebuild for the just-changed
  tag \<open>tag\<close>: its cached list when it is another tag with a cache entry, its filtered
  current list otherwise.
\<close>

definition contribution ::
  "selector \<Rightarrow> world \<Rightarrow> string \<Rightarrow> (string \<Rightarrow> outbound list) \<Rightarrow> string \<Rightarrow> outbound list" where
  "contribution s w tag cache p =
     (if p \<noteq> tag \<and> cache p \<noteq> [] then cache p else survivors s (bound_Outbounds s w p))"

definition candidates :: "selector \<Rightarrow> world \<Rightarrow> string \<Rightarrow> outbound list" where
  "candidates s w tag = concat (map (contribution s w tag (outboundsCache s)) (providerTags s))"

definition static_map :: "selector \<Rightarrow> world \<Rightarrow> (string \<rightharpoonup> outbound)" where
  "static_map s w = (\<lambda>x. if x \<in> set (Dependencies s) then outbound_manager w x else None)"

definition rebuilt_cache :: "selector \<Rightarrow> world \<Rightarrow> string \<Rightarrow> (string \<Rightarrow> outbound list)" where
  "rebuilt_cache s w tag =
     (\<lambda>q. if q \<in> set (providerTags s) then contribution s w tag (outboundsCache s) q
          else outboundsCache s q)"

text \<open>
  The prior choice the persisted store holds for this Selector: none when the Selector
  has no tag of its own, holds no cache file, or the store answers the empty string.
\<close>

definition persisted_tag :: "selector \<Rightarrow> world \<Rightarrow> string option" where
  "persisted_tag s w =
     (if adapter_Tag s = [] then None
      else case cacheFile s of
             None \<Rightarrow> None
           | Some c \<Rightarrow>
               (let S = LoadSelected (cache_files w c) (adapter_Tag s)
                in if S = [] then None else Some S))"

text \<open>The calls a step added to the trace, and how many of them wrote or interrupted.\<close>

definition events_since :: "world \<Rightarrow> world \<Rightarrow> event list" where
  "events_since w w' = drop (length (trace w)) (trace w')"

fun is_store :: "event \<Rightarrow> bool" where
  "is_store (StoreSelectedCalled g t) = True"
| "is_store _ = False"

fun is_interrupt :: "event \<Rightarrow> bool" where
  "is_interrupt (Interrupted b) = True"
| "is_interrupt _ = False"

definition store_writes :: "event list \<Rightarrow> nat" where
  "store_writes evs = length (filter is_store evs)"

definition interrupts :: "event list \<Rightarrow> nat" where
  "interrupts evs = length (filter is_interrupt evs)"

text \<open>
  Invariant (a) of the Selector: the active selection, once set, is one of the outbounds
  of the current candidate map.
\<close>

definition selection_is_candidate :: "selector \<Rightarrow> bool" where
  "selection_is_candidate s =
     (case selected s of None \<Rightarrow> True | Some d \<Rightarrow> d \<in> ran (outbounds s))"

text \<open>
  The test of the debounce loop of \<open>UpdateOutbounds\<close>: some provider of the manager
  with another tag reports an update in progress.
\<close>

definition other_provider_updating :: "string \<Rightarrow> world \<Rightarrow> bool" where
  "other_provider_updating tag w =
     list_ex (\<lambda>p. provider_Tag (provider_state w p) \<noteq> tag \<and> IsUpdating (provider_state w p))
       (manager_Providers w)"

text \<open>
  The outbound manager answers each static tag of the Selector, when it knows it, with
  an outbound of that tag.
\<close>

definition static_consistent :: "selector \<Rightarrow> world \<Rightarrow> bool" where
  "static_consistent s w =
     list_all (\<lambda>t. case outbound_manager w t of None \<Rightarrow> True | Some d \<Rightarrow> Tag d = t)
       (Dependencies s)"

section \<open>A running configuration\<close>

text \<open>
  A small installation used to run the definitions: two static outbounds, the
  \<open>Compatible\<close> outbound, and two providers \<open>p1\<close> and \<open>p2\<close>.
\<close>

definition proxyA :: outbound where "proxyA = Outbound 1 ''A''"
definition proxyB :: outbound where "proxyB = Outbound 2 ''B''"
definition compatible :: outbound where "compatible = Outbound 3 ''Compatible''"
definition hk1 :: outbound where "hk1 = Outbound 10 ''hk-1''"
definition us1 :: outbound where "us1 = Outbound 11 ''us-1''"
definition jp1 :: outbound where "jp1 = Outbound 20 ''jp-1''"

definition demo_world :: world where
  "demo_world =
     \<lparr>outbound_manager = [''A'' \<mapsto> proxyA, ''B'' \<mapsto> proxyB, ''Compatible'' \<mapsto> compatible],
      manager_Providers = [0, 1],
      manager_Provider = [''p1'' \<mapsto> 0, ''p2'' \<mapsto> 1],
      provider_state = (\<lambda>r. if r = 0
         then \<lparr>provider_Tag = ''p1'', Outbounds = [hk1, us1], IsUpdating = False\<rparr>
         else \<lparr>provider_Tag = ''p2'', Outbounds = [jp1], IsUpdating = False\<rparr>),
      cache_files = (\<lambda>c. \<lparr>LoadSelected = (\<lambda>g. []), store_fails = False\<rparr>),
      ctx_cacheFile = Some 0,
      trace = []\<rparr>"

text \<open>A Selector as \<open>NewSelector\<close> leaves it, excluding the tag \<open>us-1\<close>.\<close>

definition demo_selector :: selector where
  "demo_selector =
     \<lparr>adapter_Tag = ''select'',
      Dependencies = [''A''],
      cacheFile = None,
      tags = [''A''],
      defaultTag = [],
      outbounds = Map.empty,
      outboundsCache = (\<lambda>p. []),
      providers = Map.empty,
      selected = None,
      interruptExternalConnections = False,
      include_re = None,
      exclude_re = Some (\<lambda>t. t = ''us-1''),
      providerTags = [''p1'', ''p2''],
      useAllProviders = False\<rparr>"

text \<open>The same Selector after \<open>Start\<close> in \<open>demo_world\<close>, and the world it leaves.\<close>

definition started_selector :: selector where
  "started_selector =
     demo_selector
       \<lparr>cacheFile := Some 0,
        tags := [''A'', ''hk-1'', ''jp-1''],
        outbounds := [''A'' \<mapsto> proxyA, ''hk-1'' \<mapsto> hk1, ''jp-1'' \<mapsto> jp1],
        outboundsCache := (\<lambda>p. [])(''p1'' := [hk1], ''p2'' := [jp1]),
        providers := [''p1'' \<mapsto> Some 0, ''p2'' \<mapsto> Some 1],
        selected := Some proxyA\<rparr>"

definition started_world :: world where
  "started_world = demo_world\<lparr>trace := [OutboundsCalled ''p1'', OutboundsCalled ''p2'']\<rparr>"

text \<open>After \<open>SelectOutbound("jp-1")\<close>.\<close>

definition chosen_selector :: selector where
  "chosen_selector = started_selector\<lparr>selected := Some jp1\<rparr>"

definition chosen_world :: world where
  "chosen_world =
     started_world
       \<lparr>cache_files :=
          (\<lambda>c. \<lparr>LoadSelected = (\<lambda>g. []), store_fails = False\<rparr>)
            (0 := \<lparr>LoadSelected = (\<lambda>g. [])(''select'' := ''jp-1''), store_fails = False\<rparr>),
        trace := [OutboundsCalled ''p1'', OutboundsCalled ''p2'',
                  StoreSelectedCalled ''select'' ''jp-1'', Interrupted False]\<rparr>"

text \<open>
  Later, provider \<open>p2\<close> has reloaded to an empty list while provider \<open>p1\<close> is in the
  middle of an update of its own.
\<close>

definition busy_world :: world where
  "busy_world =
     chosen_world
       \<lparr>provider_state := (\<lambda>r. if r = 0
           then \<lparr>provider_Tag = ''p1'', Outbounds = [hk1, us1], IsUpdating = True\<rparr>
           else \<lparr>provider_Tag = ''p2'', Outbounds = [], IsUpdating = False\<rparr>)\<rparr>"

definition stale_selector :: selector where
  "stale_selector =
     chosen_selector
       \<lparr>tags := [''A'', ''hk-1''],
        outbounds := [''A'' \<mapsto> proxyA, ''hk-1'' \<mapsto> hk1],
        outboundsCache := (\<lambda>p. [])(''p1'' := [hk1], ''p2'' := [])\<rparr>"

text \<open>A Selector with no static tags, bound to provider \<open>p2\<close> alone.\<close>

definition provider_only_selector :: selector where
  "provider_only_selector =
     demo_selector
       \<lparr>Dependencies := [], tags := [], providerTags := [''p2''],
        providers := [''p2'' \<mapsto> Some 1]\<rparr>"

text \<open>The same reload of \<open>p2\<close> with no other provider updating.\<close>

definition settled_world :: world where
  "settled_world =
     chosen_world
       \<lparr>provider_state := (\<lambda>r. if r = 0
           then \<lparr>provider_Tag = ''p1'', Outbounds = [hk1, us1], IsUpdating = False\<rparr>
           else \<lparr>provider_Tag = ''p2'', Outbounds = [], IsUpdating = False\<rparr>)\<rparr>"

text \<open>A configuration that names a provider the manager does not know.\<close>

definition misconfigured_selector :: selector where
  "misconfigured_selector = demo_selector\<lparr>providerTags := [''p1'', ''missing'']\<rparr>"

text \<open>
  Three file systems for \<open>ProviderLocal\<close>: one where everything works, one where the
  subscription does not parse, and one where the file can be read but not inspected.
\<close>

definition healthy_env :: local_env where
  "healthy_env =
     \<lparr>resolve_path = (\<lambda>p. ''/etc/sing-box/'' @ p),
      Stat = (\<lambda>p. Inr 1700000000),
      ReadFile = (\<lambda>p. Inr ''hk-1 us-1''),
      ParseSubscription = (\<lambda>c. Inr [OutboundOption ''hk-1'' c, OutboundOption ''us-1'' c]),
      NewWatcher = (\<lambda>p. Inr 7)\<rparr>"

definition garbled_env :: local_env where
  "garbled_env = healthy_env\<lparr>ParseSubscription := (\<lambda>c. Inl (ParseError ''no outbounds''))\<rparr>"

definition stat_denied_env :: local_env where
  "stat_denied_env = healthy_env\<lparr>Stat := (\<lambda>p. Inl (OsError ''permission denied''))\<rparr>"

section \<open>The loops of filterOutbounds in closed form\<close>

lemma cached_loop_eq:
  "cached_loop ds (tgs, m) = (tgs @ map Tag ds, fold register ds m)"
proof (induction ds arbitrary: tgs m)
  case Nil
  show ?case by simp
next
  case (Cons d ds)
  have "cached_loop (d # ds) (tgs, m) = cached_loop ds (tgs @ [Tag d], register d m)"
    by (simp add: register_def)
  then show ?case by (simp add: Cons.IH)
qed

lemma fetch_loop_keep:
  "keeps s (Tag d) \<Longrightarrow>
     fetch_loop s (d # ds) (tgs, c, m) = fetch_loop s ds (tgs @ [Tag d], c @ [d], register d m)"
  by (cases "include_re s"; cases "exclude_re s") (simp_all add: keeps_def register_def Let_def)

lemma fetch_loop_drop:
  "\<not> keeps s (Tag d) \<Longrightarrow> fetch_loop s (d # ds) (tgs, c, m) = fetch_loop s ds (tgs, c, m)"
  by (cases "include_re s"; cases "exclude_re s") (auto simp: keeps_def Let_def)

lemma fetch_loop_eq:
  "fetch_loop s ds (tgs, c, m) =
     (tgs @ map Tag (survivors s ds), c @ survivors s ds, fold register (survivors s ds) m)"
proof (induction ds arbitrary: tgs c m)
  case Nil
  show ?case by (simp add: survivors_def)
next
  case (Cons d ds)
  show ?case
  proof (cases "keeps s (Tag d)")
    case True
    then have sv: "survivors s (d # ds) = d # survivors s ds"
      by (simp add: survivors_def)
    show ?thesis
      unfolding fetch_loop_keep [OF True] Cons.IH sv by simp
  next
    case False
    then have sv: "survivors s (d # ds) = survivors s ds"
      by (simp add: survivors_def)
    show ?thesis
      unfolding fetch_loop_drop [OF False] Cons.IH sv by simp
  qed
qed

lemma contribution_upd:
  assumes "p = tag \<or> cache p = []"
  shows "contribution s w tag (cache(p := survivors s (bound_Outbounds s w p))) q
           = contribution s w tag cache q"
  using assms by (auto simp: contribution_def)

lemma provider_loop_eq:
  assumes "provider_loop s w tag pts (tgs, m, cache, evs) = Inr (tgs', m', cache', evs')"
  shows "tgs' = tgs @ concat (map (\<lambda>p. map Tag (contribution s w tag cache p)) pts)
       \<and> m' = fold register (concat (map (contribution s w tag cache) pts)) m
       \<and> cache' = (\<lambda>q. if q \<in> set pts then contribution s w tag cache q else cache q)"
  using assms
proof (induction pts arbitrary: tgs m cache evs)
  case Nil
  then show ?case by auto
next
  case (Cons p pts)
  show ?case
  proof (cases "p \<noteq> tag \<and> cache p \<noteq> []")
    case True
    then have c: "contribution s w tag cache p = cache p"
      by (simp add: contribution_def)
    from True Cons.prems
    have "provider_loop s w tag pts (tgs @ map Tag (cache p), fold register (cache p) m, cache, evs)
            = Inr (tgs', m', cache', evs')"
      by (simp add: cached_loop_eq)
    from Cons.IH [OF this] c show ?thesis by auto
  next
    case False
    with Cons.prems obtain r where r: "providers s p = Some (Some r)"
      by (auto split: option.splits)
    let ?sv = "survivors s (Outbounds (provider_state w r))"
    have b: "bound_Outbounds s w p = Outbounds (provider_state w r)"
      using r by (simp add: bound_Outbounds_def)
    have c: "contribution s w tag cache p = ?sv"
      using False b by (auto simp: contribution_def)
    have u: "\<And>q. contribution s w tag (cache(p := ?sv)) q = contribution s w tag cache q"
      using contribution_upd [of p tag cache s w] False b by auto
    from False Cons.prems r
    have "provider_loop s w tag pts
            (tgs @ map Tag ?sv, fold register ?sv m, cache(p := ?sv), evs @ [OutboundsCalled p])
            = Inr (tgs', m', cache', evs')"
      by (auto simp: fetch_loop_eq)
    from Cons.IH [OF this] show ?thesis
      unfolding u using c by (auto simp: fun_eq_iff)
  qed
qed

lemma provider_loop_events:
  assumes "provider_loop s w tag pts (tgs, m, cache, evs) = Inr (tgs', m', cache', evs')"
  shows "\<exists>new. evs' = evs @ new
           \<and> (\<forall>e\<in>set new. \<exists>q\<in>set pts. e = OutboundsCalled q \<and> (q = tag \<or> cache q = []))
           \<and> (\<forall>q\<in>set pts. q = tag \<or> cache q = [] \<longrightarrow> OutboundsCalled q \<in> set new)"
  using assms
proof (induction pts arbitrary: tgs m cache evs)
  case Nil
  then show ?case by auto
next
  case (Cons p pts)
  show ?case
  proof (cases "p \<noteq> tag \<and> cache p \<noteq> []")
    case True
    from True Cons.prems
    have "provider_loop s w tag pts (tgs @ map Tag (cache p), fold register (cache p) m, cache, evs)
            = Inr (tgs', m', cache', evs')"
      by (simp add: cached_loop_eq)
    from Cons.IH [OF this] obtain new where
      n: "evs' = evs @ new"
         "\<forall>e\<in>set new. \<exists>q\<in>set pts. e = OutboundsCalled q \<and> (q = tag \<or> cache q = [])"
         "\<forall>q\<in>set pts. q = tag \<or> cache q = [] \<longrightarrow> OutboundsCalled q \<in> set new"
      by blast
    from n True show ?thesis by (intro exI [of _ new]) auto
  next
    case False
    with Cons.prems obtain r where r: "providers s p = Some (Some r)"
      by (auto split: option.splits)
    let ?sv = "survivors s (Outbounds (provider_state w r))"
    let ?c = "cache(p := ?sv)"
    from False Cons.prems r
    have "provider_loop s w tag pts
            (tgs @ map Tag ?sv, fold register ?sv m, ?c, evs @ [OutboundsCalled p])
            = Inr (tgs', m', cache', evs')"
      by (auto simp: fetch_loop_eq)
    from Cons.IH [OF this] obtain new where
      n: "evs' = (evs @ [OutboundsCalled p]) @ new"
         "\<forall>e\<in>set new. \<exists>q\<in>set pts. e = OutboundsCalled q \<and> (q = tag \<or> ?c q = [])"
         "\<forall>q\<in>set pts. q = tag \<or> ?c q = [] \<longrightarrow> OutboundsCalled q \<in> set new"
      by blast
    have a: "evs' = evs @ (OutboundsCalled p # new)"
      using n(1) by simp
    have b: "\<forall>e\<in>set (OutboundsCalled p # new).
               \<exists>q\<in>set (p # pts). e = OutboundsCalled q \<and> (q = tag \<or> cache q = [])"
    proof
      fix e assume e: "e \<in> set (OutboundsCalled p # new)"
      show "\<exists>q\<in>set (p # pts). e = OutboundsCalled q \<and> (q = tag \<or> cache q = [])"
      proof (cases "e = OutboundsCalled p")
        case True
        with False show ?thesis by auto
      next
        case ne: False
        with e have "e \<in> set new" by simp
        with n(2) obtain q where q: "q \<in> set pts" "e = OutboundsCalled q" "q = tag \<or> ?c q = []"
          by blast
        from ne q(2) have "q \<noteq> p" by auto
        with q show ?thesis by auto
      qed
    qed
    have c: "\<forall>q\<in>set (p # pts). q = tag \<or> cache q = [] \<longrightarrow> OutboundsCalled q \<in> set (OutboundsCalled p # new)"
    proof (intro ballI impI)
      fix q assume q: "q \<in> set (p # pts)" "q = tag \<or> cache q = []"
      show "OutboundsCalled q \<in> set (OutboundsCalled p # new)"
      proof (cases "q = p")
        case True
        then show ?thesis by simp
      next
        case ne: False
        with q have "q \<in> set pts" "q = tag \<or> ?c q = []" by auto
        with n(3) show ?thesis by auto
      qed
    qed
    from a b c show ?thesis by blast
  qed
qed

lemma static_loop_Inr:
  assumes "static_loop om i ts m = Inr m'"
  shows "m' = (\<lambda>x. if x \<in> set ts then om x else m x) \<and> (\<forall>t\<in>set ts. om t \<noteq> None)"
  using assms
proof (induction ts arbitrary: i m)
  case Nil
  then show ?case by simp
next
  case (Cons t ts)
  from Cons.prems obtain d where d: "om t = Some d"
    by (auto split: option.splits)
  with Cons.prems have "static_loop om (Suc i) ts (m(t \<mapsto> d)) = Inr m'" by simp
  from Cons.IH [OF this] d show ?case by (auto simp: fun_eq_iff)
qed

lemma static_loop_ok:
  "\<forall>t\<in>set ts. om t \<noteq> None \<Longrightarrow> \<exists>m'. static_loop om i ts m = Inr m'"
  by (induction ts arbitrary: i m) auto

lemma provider_loop_ok:
  assumes "\<forall>p\<in>set pts. \<exists>r. providers s p = Some (Some r)"
  shows "\<exists>res. provider_loop s w tag pts (tgs, m, cache, evs) = Inr res"
  using assms
proof (induction pts arbitrary: tgs m cache evs)
  case Nil
  show ?case by simp
next
  case (Cons p pts)
  then obtain r where r: "providers s p = Some (Some r)" by auto
  from Cons have ih: "\<And>tgs m cache evs. \<exists>res. provider_loop s w tag pts (tgs, m, cache, evs) = Inr res"
    by auto
  show ?case
    using r ih by (simp add: cached_loop_eq fetch_loop_eq)
qed

lemma filterOutbounds_success:
  assumes "filterOutbounds tag s w = Inr ((tgs, m, None), s', w')"
  shows "\<exists>new.
           s' = s\<lparr>outboundsCache := rebuilt_cache s w tag\<rparr>
         \<and> w' = w\<lparr>trace := trace w @ new\<rparr>
         \<and> (\<forall>e\<in>set new. \<exists>q\<in>set (providerTags s).
               e = OutboundsCalled q \<and> (q = tag \<or> outboundsCache s q = []))
         \<and> (\<forall>q\<in>set (providerTags s).
               q = tag \<or> outboundsCache s q = [] \<longrightarrow> OutboundsCalled q \<in> set new)
         \<and> (\<forall>t\<in>set (Dependencies s). outbound_manager w t \<noteq> None)
         \<and> (defaultTag s \<noteq> [] \<longrightarrow> defaultTag s \<in> set (Dependencies s))
         \<and> (if Dependencies s @ map Tag (candidates s w tag) = []
             then \<exists>d. outbound_manager w ''Compatible'' = Some d \<and> tgs = [Tag d]
                      \<and> m = [Tag d \<mapsto> d]
             else tgs = Dependencies s @ map Tag (candidates s w tag)
                  \<and> m = fold register (candidates s w tag) (static_map s w))"
proof -
  from assms obtain m0 where
    m0: "static_loop (outbound_manager w) 0 (Dependencies s) Map.empty = Inr m0"
    by (auto simp: filterOutbounds_def split: sum.splits)
  from static_loop_Inr [OF m0]
  have sm: "m0 = static_map s w" and res: "\<forall>t\<in>set (Dependencies s). outbound_manager w t \<noteq> None"
    by (auto simp: static_map_def)
  from assms m0 have dflt: "\<not> (defaultTag s \<noteq> [] \<and> m0 (defaultTag s) = None)"
    by (auto simp: filterOutbounds_def split: if_splits)
  then have dflt': "defaultTag s \<noteq> [] \<longrightarrow> defaultTag s \<in> set (Dependencies s)"
    unfolding sm static_map_def by (auto split: if_splits)
  from assms m0 dflt obtain tgs1 m1 cache1 evs1 where
    pl: "provider_loop s w tag (providerTags s) (Dependencies s, m0, outboundsCache s, [])
           = Inr (tgs1, m1, cache1, evs1)"
    by (auto simp: filterOutbounds_def split: sum.splits)
  from provider_loop_eq [OF pl]
  have t1: "tgs1 = Dependencies s @ map Tag (candidates s w tag)"
    and m1: "m1 = fold register (candidates s w tag) (static_map s w)"
    and c1: "cache1 = rebuilt_cache s w tag"
    by (simp_all add: candidates_def map_concat sm rebuilt_cache_def comp_def)
  from provider_loop_events [OF pl]
  have e1: "\<forall>e\<in>set evs1. \<exists>q\<in>set (providerTags s).
               e = OutboundsCalled q \<and> (q = tag \<or> outboundsCache s q = [])"
    and e2: "\<forall>q\<in>set (providerTags s).
               q = tag \<or> outboundsCache s q = [] \<longrightarrow> OutboundsCalled q \<in> set evs1"
    by auto
  have eq: "filterOutbounds tag s w =
          (if tgs1 = [] then
                (case outbound_manager w ''Compatible'' of
                   None \<Rightarrow> Inl NilDereference
                 | Some detour \<Rightarrow>
                     Inr (([Tag detour], m1(Tag detour \<mapsto> detour), None),
                          s\<lparr>outboundsCache := cache1\<rparr>, w\<lparr>trace := trace w @ evs1\<rparr>))
              else Inr ((tgs1, m1, None), s\<lparr>outboundsCache := cache1\<rparr>, w\<lparr>trace := trace w @ evs1\<rparr>))"
    using dflt by (auto simp: filterOutbounds_def Let_def m0 pl)
  note fin = assms [unfolded eq]
  have sw: "s' = s\<lparr>outboundsCache := rebuilt_cache s w tag\<rparr> \<and> w' = w\<lparr>trace := trace w @ evs1\<rparr>"
    using fin c1 by (auto split: if_splits option.splits)
  have shape: "(if Dependencies s @ map Tag (candidates s w tag) = []
             then \<exists>d. outbound_manager w ''Compatible'' = Some d \<and> tgs = [Tag d]
                      \<and> m = [Tag d \<mapsto> d]
             else tgs = Dependencies s @ map Tag (candidates s w tag)
                  \<and> m = fold register (candidates s w tag) (static_map s w))"
  proof (cases "tgs1 = []")
    case True
    then have "Dependencies s = []" "candidates s w tag = []" using t1 by auto
    then have "m1 = Map.empty" using m1 by (simp add: static_map_def)
    with fin True t1 show ?thesis by (auto split: option.splits)
  next
    case False
    with fin t1 m1 show ?thesis by auto
  qed
  from sw e1 e2 res dflt' shape show ?thesis by blast
qed

lemma filterOutbounds_trace:
  assumes "filterOutbounds tag s w = Inr ((tgs, m, None), s', w')"
  shows "(\<forall>e\<in>set (events_since w w'). \<exists>q\<in>set (providerTags s).
               e = OutboundsCalled q \<and> (q = tag \<or> outboundsCache s q = []))
         \<and> (\<forall>q\<in>set (providerTags s).
               q = tag \<or> outboundsCache s q = [] \<longrightarrow> OutboundsCalled q \<in> set (events_since w w'))"
proof -
  from filterOutbounds_success [OF assms] obtain new where
    n: "w' = w\<lparr>trace := trace w @ new\<rparr>"
       "\<forall>e\<in>set new. \<exists>q\<in>set (providerTags s).
               e = OutboundsCalled q \<and> (q = tag \<or> outboundsCache s q = [])"
       "\<forall>q\<in>set (providerTags s).
               q = tag \<or> outboundsCache s q = [] \<longrightarrow> OutboundsCalled q \<in> set new"
    by blast
  from n(1) have "events_since w w' = new" by (simp add: events_since_def)
  with n(2,3) show ?thesis by simp
qed

lemma filterOutbounds_cache:
  assumes "filterOutbounds tag s w = Inr ((tgs, m, None), s', w')"
  shows "outboundsCache s' = rebuilt_cache s w tag"
  using filterOutbounds_success [OF assms] by auto

text \<open>
  A rebuild returns without error whenever the static tags and the default tag resolve,
  every bound provider tag is bound to a provider, and the \<open>Compatible\<close> outbound
  exists in case it is needed.
\<close>

lemma filterOutbounds_returns:
  assumes "\<forall>t\<in>set (Dependencies s). outbound_manager w t \<noteq> None"
    and "defaultTag s = [] \<or> defaultTag s \<in> set (Dependencies s)"
    and "\<forall>p\<in>set (providerTags s). \<exists>r. providers s p = Some (Some r)"
    and "Dependencies s \<noteq> [] \<or> outbound_manager w ''Compatible'' \<noteq> None"
  shows "\<exists>tgs m s' w'. filterOutbounds tag s w = Inr ((tgs, m, None), s', w')"
proof -
  from static_loop_ok [OF assms(1)] obtain m0 where
    m0: "static_loop (outbound_manager w) 0 (Dependencies s) Map.empty = Inr m0"
    by blast
  from static_loop_Inr [OF m0] assms(1,2)
  have dflt: "\<not> (defaultTag s \<noteq> [] \<and> m0 (defaultTag s) = None)"
    by auto
  from provider_loop_ok [OF assms(3)] obtain tgs1 m1 cache1 evs1 where
    pl: "provider_loop s w tag (providerTags s) (Dependencies s, m0, outboundsCache s, [])
           = Inr (tgs1, m1, cache1, evs1)"
    by (metis prod_cases4)
  from provider_loop_eq [OF pl]
  have t1: "tgs1 = Dependencies s @ concat (map (\<lambda>p. map Tag (contribution s w tag (outboundsCache s) p)) (providerTags s))"
    by simp
  show ?thesis
  proof (cases "tgs1 = []")
    case False
    with dflt show ?thesis
      by (auto simp: filterOutbounds_def m0 pl Let_def)
  next
    case True
    with t1 assms(4) obtain d where "outbound_manager w ''Compatible'' = Some d"
      by auto
    with True dflt show ?thesis
      by (auto simp: filterOutbounds_def m0 pl Let_def)
  qed
qed

section \<open>What every successful rebuild establishes\<close>

lemma dom_fold_register: "dom (fold register ds m) = dom m \<union> Tag ` set ds"
proof (induction ds arbitrary: m)
  case Nil
  show ?case by simp
next
  case (Cons d ds)
  have "dom (register d m) = insert (Tag d) (dom m)"
    by (simp add: register_def)
  with Cons.IH [of "register d m"] show ?case by auto
qed

lemma fold_register_key:
  "fold register ds m k = Some d \<Longrightarrow> Tag d = k \<or> m k = Some d"
proof (induction ds arbitrary: m)
  case Nil
  then show ?case by simp
next
  case (Cons a ds)
  from Cons.prems have "fold register ds (register a m) k = Some d" by simp
  from Cons.IH [OF this] have "Tag d = k \<or> register a m k = Some d" .
  then show ?case by (auto simp: register_def split: if_splits)
qed

lemma filterOutbounds_dom:
  assumes "filterOutbounds tag s w = Inr ((tgs, m, None), s', w')"
  shows "dom m = set tgs \<and> tgs \<noteq> [] \<and> set (Dependencies s) \<subseteq> dom m"
proof (cases "Dependencies s @ map Tag (candidates s w tag) = []")
  case True
  with filterOutbounds_success [OF assms]
  obtain d where "tgs = [Tag d]" "m = [Tag d \<mapsto> d]" by auto
  with True show ?thesis by simp
next
  case False
  with filterOutbounds_success [OF assms]
  have r: "tgs = Dependencies s @ map Tag (candidates s w tag)"
          "m = fold register (candidates s w tag) (static_map s w)"
          "\<forall>t\<in>set (Dependencies s). outbound_manager w t \<noteq> None"
    by auto
  from r(3) have "dom (static_map s w) = set (Dependencies s)"
    by (auto simp: static_map_def dom_def)
  with r(1,2) False show ?thesis by (auto simp: dom_fold_register)
qed

lemma filterOutbounds_keys:
  assumes "filterOutbounds tag s w = Inr ((tgs, m, None), s', w')"
    and "static_consistent s w" and "m k = Some d"
  shows "Tag d = k"
proof (cases "Dependencies s @ map Tag (candidates s w tag) = []")
  case True
  with filterOutbounds_success [OF assms(1)]
  obtain c where "m = [Tag c \<mapsto> c]" by auto
  with assms(3) show ?thesis by (auto split: if_splits)
next
  case False
  with filterOutbounds_success [OF assms(1)]
  have r: "m = fold register (candidates s w tag) (static_map s w)" by auto
  have "static_map s w k = Some d \<Longrightarrow> Tag d = k"
    using assms(2)
    by (auto simp: static_consistent_def static_map_def list_all_iff split: if_splits)
  with fold_register_key [of "candidates s w tag" "static_map s w" k d] assms(3) r
  show ?thesis by auto
qed

lemma filterOutbounds_frame:
  assumes "filterOutbounds tag s w = Inr ((tgs, m, e), s', w')"
  shows "(\<exists>c. s' = s\<lparr>outboundsCache := c\<rparr>)
       \<and> (\<exists>new. w' = w\<lparr>trace := trace w @ new\<rparr> \<and> (\<forall>ev\<in>set new. \<exists>q. ev = OutboundsCalled q))"
proof (cases e)
  case None
  from filterOutbounds_success [OF assms [unfolded None]] obtain new where
    n: "s' = s\<lparr>outboundsCache := rebuilt_cache s w tag\<rparr>" "w' = w\<lparr>trace := trace w @ new\<rparr>"
       "\<forall>e\<in>set new. \<exists>q\<in>set (providerTags s).
               e = OutboundsCalled q \<and> (q = tag \<or> outboundsCache s q = [])"
    by blast
  from n(3) have "\<forall>ev\<in>set new. \<exists>q. ev = OutboundsCalled q" by blast
  with n(1,2) show ?thesis by blast
next
  case (Some err)
  have "s' = s \<and> w' = w"
  proof (cases "static_loop (outbound_manager w) 0 (Dependencies s) Map.empty")
    case (Inl x)
    with assms show ?thesis by (simp add: filterOutbounds_def)
  next
    case (Inr m0)
    show ?thesis
    proof (cases "defaultTag s \<noteq> [] \<and> m0 (defaultTag s) = None")
      case True
      with assms Inr show ?thesis by (simp add: filterOutbounds_def)
    next
      case False
      with assms Inr Some show ?thesis
        by (auto simp: filterOutbounds_def Let_def split: sum.splits if_splits option.splits)
    qed
  qed
  then have "s' = s\<lparr>outboundsCache := outboundsCache s\<rparr>" "w' = w\<lparr>trace := trace w @ []\<rparr>"
    by simp_all
  moreover have "\<forall>ev\<in>set ([]::event list). \<exists>q. ev = OutboundsCalled q" by simp
  ultimately show ?thesis by blast
qed

lemma outboundSelect_member:
  assumes "dom (outbounds s) = set (tags s)" and "outboundSelect s w = Inr (x, None)"
  shows "\<exists>d k. x = Some d \<and> outbounds s k = Some d"
proof -
  let ?p = "(if adapter_Tag s \<noteq> [] then
              (case cacheFile s of
                 None \<Rightarrow> None
               | Some c \<Rightarrow>
                   (let sel = LoadSelected (cache_files w c) (adapter_Tag s)
                    in if sel \<noteq> [] then outbounds s sel else None))
            else None)"
  show ?thesis
  proof (cases ?p)
    case (Some d)
    then have "\<exists>k. outbounds s k = Some d"
      by (auto simp: Let_def split: if_splits option.splits)
    moreover from Some assms(2) have "x = Some d"
      by (simp add: outboundSelect_def)
    ultimately show ?thesis by blast
  next
    case None
    show ?thesis
    proof (cases "defaultTag s \<noteq> []")
      case True
      with None assms(2) show ?thesis
        by (cases "outbounds s (defaultTag s)") (auto simp: outboundSelect_def)
    next
      case False
      show ?thesis
      proof (cases "tags s")
        case Nil
        with None False assms(2) show ?thesis by (simp add: outboundSelect_def)
      next
        case (Cons t ts)
        with assms(1) obtain d where d: "outbounds s t = Some d" by auto
        from None False Cons assms(2) have "x = outbounds s t"
          by (simp add: outboundSelect_def)
        with d show ?thesis by blast
      qed
    qed
  qed
qed

section \<open>Start and SelectOutbound, step by step\<close>

lemma Start_success:
  assumes "Start s w = Inr (None, s', w')"
  shows "\<exists>s1 tgs m s2 detour.
           filterOutbounds [] s1 w = Inr ((tgs, m, None), s2, w')
         \<and> outboundSelect (s2\<lparr>tags := tgs, outbounds := m, cacheFile := ctx_cacheFile w'\<rparr>) w'
             = Inr (detour, None)
         \<and> s' = s2\<lparr>tags := tgs, outbounds := m, cacheFile := ctx_cacheFile w', selected := detour\<rparr>"
proof -
  define s1 where "s1 = (if useAllProviders s then
                  (case bind_all w (manager_Providers w) ([], providers s) of
                     (pts, bound) \<Rightarrow> s\<lparr>providers := bound, providerTags := pts\<rparr>)
                else s\<lparr>providers := bind_explicit w (providerTags s) (providers s)\<rparr>)"
  have st: "Start s w =
      (if length (tags s1) + length (providerTags s1) = 0 then Inr (Some MissingTags, s1, w)
         else
           (case filterOutbounds [] s1 w of
              Inl p \<Rightarrow> Inl p
            | Inr ((tgs, outboundByTag, Some e), s2, w2) \<Rightarrow> Inr (Some e, s2, w2)
            | Inr ((tgs, outboundByTag, None), s2, w2) \<Rightarrow>
                (let s3 = s2\<lparr>tags := tgs, outbounds := outboundByTag, cacheFile := ctx_cacheFile w2\<rparr>
                 in case outboundSelect s3 w2 of
                      Inl p \<Rightarrow> Inl p
                    | Inr (detour, Some e) \<Rightarrow> Inr (Some e, s3, w2)
                    | Inr (detour, None) \<Rightarrow> Inr (None, s3\<lparr>selected := detour\<rparr>, w2))))"
    unfolding Start_def s1_def Let_def ..
  from assms [unfolded st] have ne: "length (tags s1) + length (providerTags s1) \<noteq> 0"
    by (auto split: if_splits)
  with assms [unfolded st] obtain tgs m e s2 w2 where
    fo: "filterOutbounds [] s1 w = Inr ((tgs, m, e), s2, w2)"
    by (cases "filterOutbounds [] s1 w") auto
  from assms [unfolded st] ne fo have e: "e = None"
    by (cases e) auto
  let ?s3 = "s2\<lparr>tags := tgs, outbounds := m, cacheFile := ctx_cacheFile w2\<rparr>"
  from assms [unfolded st] ne fo e obtain detour e2 where
    os: "outboundSelect ?s3 w2 = Inr (detour, e2)"
    by (cases "outboundSelect ?s3 w2") (auto simp: Let_def)
  from assms [unfolded st] ne fo e os have e2: "e2 = None"
    by (cases e2) (auto simp: Let_def)
  from assms [unfolded st] ne fo e os e2
  have "s' = ?s3\<lparr>selected := detour\<rparr>" "w' = w2"
    by (auto simp: Let_def)
  with fo e os e2 show ?thesis by blast
qed

lemma SelectOutbound_cases:
  assumes "SelectOutbound t s w = (b, s', w')"
  shows "(s' = s \<and> w' = w) \<or> (\<exists>d. outbounds s t = Some d \<and> b \<and> s' = s\<lparr>selected := Some d\<rparr>)"
proof (cases "outbounds s t")
  case None
  with assms show ?thesis by (simp add: SelectOutbound_def)
next
  case (Some d)
  show ?thesis
  proof (cases "selected s = Some d")
    case True
    with Some assms show ?thesis by (simp add: SelectOutbound_def)
  next
    case False
    with Some assms have "b \<and> s' = s\<lparr>selected := Some d\<rparr>"
      by (auto simp: SelectOutbound_def Let_def)
    with Some show ?thesis by blast
  qed
qed

lemma SelectOutbound_known:
  assumes "outbounds s t = Some d" and "SelectOutbound t s w = (b, s', w')"
  shows "selected s' = Some d \<and> outbounds s' = outbounds s \<and> tags s' = tags s"
proof (cases "selected s = Some d")
  case True
  with assms show ?thesis by (auto simp: SelectOutbound_def)
next
  case False
  with assms show ?thesis by (auto simp: SelectOutbound_def Let_def)
qed

section \<open>A nil provider in the provider loop\<close>

lemma bind_explicit_lookup:
  "bind_explicit w ts bound t = (if t \<in> set ts then Some (manager_Provider w t) else bound t)"
  by (induction ts arbitrary: bound) auto

lemma provider_loop_nil_panics:
  assumes "t \<in> set pts" and "providers s t = Some None" and "cache t = []"
  shows "provider_loop s w tag pts (tgs, m, cache, evs) = Inl NilDereference"
  using assms
proof (induction pts arbitrary: tgs m cache evs)
  case Nil
  then show ?case by simp
next
  case (Cons p pts)
  show ?case
  proof (cases "p \<noteq> tag \<and> cache p \<noteq> []")
    case True
    with Cons.prems have "t \<in> set pts" by auto
    then have "provider_loop s w tag pts (tgs', m', cache, evs) = Inl NilDereference" for tgs' m'
      using Cons.prems(2,3) by (rule Cons.IH)
    with True show ?thesis
      by (simp add: cached_loop_eq)
  next
    case False
    show ?thesis
    proof (cases "case providers s p of None \<Rightarrow> None | Some r \<Rightarrow> r")
      case None
      with False show ?thesis by auto
    next
      case (Some r)
      with Cons.prems(2) have "p \<noteq> t" by auto
      with Cons.prems have "t \<in> set pts" and "(cache(p := c)) t = []" for c by auto
      then have "provider_loop s w tag pts (tgs', m', cache(p := c), evs') = Inl NilDereference"
        for tgs' m' c evs'
        using Cons.prems(2) by (intro Cons.IH)
      with False Some show ?thesis
        by (auto simp: fetch_loop_eq)
    qed
  qed
qed

lemma Start_with_unresolved_provider:
  assumes "\<not> useAllProviders s" and "t \<in> set (providerTags s)"
    and "manager_Provider w t = None" and "outboundsCache s t = []"
  shows "Start s w = Inl NilDereference
       \<or> (\<exists>e. Start s w = Inr (Some e, s\<lparr>providers := bind_explicit w (providerTags s) (providers s)\<rparr>, w))"
proof -
  let ?s1 = "s\<lparr>providers := bind_explicit w (providerTags s) (providers s)\<rparr>"
  have nil: "providers ?s1 t = Some None"
    using assms(2,3) by (simp add: bind_explicit_lookup)
  have pl: "provider_loop ?s1 w [] (providerTags ?s1) (tgs, m, outboundsCache ?s1, evs)
              = Inl NilDereference" for tgs m evs
    using provider_loop_nil_panics [OF _ nil] assms(2,4) by simp
  have fo: "filterOutbounds [] ?s1 w = Inl NilDereference
          \<or> (\<exists>e. filterOutbounds [] ?s1 w = Inr (([], Map.empty, Some e), ?s1, w))"
  proof (cases "static_loop (outbound_manager w) 0 (Dependencies ?s1) Map.empty")
    case (Inl e)
    then show ?thesis by (simp add: filterOutbounds_def)
  next
    case (Inr m0)
    show ?thesis
    proof (cases "defaultTag ?s1 \<noteq> [] \<and> m0 (defaultTag ?s1) = None")
      case True
      with Inr show ?thesis by (simp add: filterOutbounds_def)
    next
      case False
      with Inr pl [of "Dependencies ?s1" m0 "[]"] show ?thesis
        by (auto simp: filterOutbounds_def)
    qed
  qed
  from assms(2) have ne: "providerTags s \<noteq> []"
    by auto
  have st: "Start s w =
           (case filterOutbounds [] ?s1 w of
              Inl p \<Rightarrow> Inl p
            | Inr ((tgs, outboundByTag, Some e), s2, w2) \<Rightarrow> Inr (Some e, s2, w2)
            | Inr ((tgs, outboundByTag, None), s2, w2) \<Rightarrow>
                (let s3 = s2\<lparr>tags := tgs, outbounds := outboundByTag, cacheFile := ctx_cacheFile w2\<rparr>
                 in case outboundSelect s3 w2 of
                      Inl p \<Rightarrow> Inl p
                    | Inr (detour, Some e) \<Rightarrow> Inr (Some e, s3, w2)
                    | Inr (detour, None) \<Rightarrow> Inr (None, s3\<lparr>selected := detour\<rparr>, w2)))"
    using assms(1) ne by (simp add: Start_def Let_def)
  from fo show ?thesis
  proof
    assume "filterOutbounds [] ?s1 w = Inl NilDereference"
    then show ?thesis by (simp add: st)
  next
    assume "\<exists>e. filterOutbounds [] ?s1 w = Inr (([], Map.empty, Some e), ?s1, w)"
    then obtain e where "filterOutbounds [] ?s1 w = Inr (([], Map.empty, Some e), ?s1, w)" ..
    then have "Start s w = Inr (Some e, ?s1, w)" by (simp add: st)
    then show ?thesis by blast
  qed
qed

section \<open>The initial load of a ProviderLocal\<close>

lemma reloadFile_result:
  "reloadFile env fp s =
     (case ReadFile env fp of
        Inl err \<Rightarrow> (Some err, case Stat env fp of Inr t \<Rightarrow> s\<lparr>lastUpdated := t\<rparr> | Inl _ \<Rightarrow> s)
      | Inr content \<Rightarrow>
          (case ParseSubscription env content of
             Inl err \<Rightarrow> (Some err, case Stat env fp of Inr t \<Rightarrow> s\<lparr>lastUpdated := t\<rparr> | Inl _ \<Rightarrow> s)
           | Inr opts \<Rightarrow>
               (None, s\<lparr>lastUpdated := (case Stat env fp of Inr t \<Rightarrow> t | Inl _ \<Rightarrow> lastUpdated s),
                        adapter_updates := adapter_updates s @ [(lastOutOpts s, opts)],
                        lastOutOpts := opts\<rparr>)))"
  by (cases "Stat env fp") (simp_all add: reloadFile_def Let_def split: sum.splits)

section \<open>Include and exclude filtering\<close>

text \<open>
  C6. For every include/exclude configuration and every provider outbound list, the
  fetch loop of \<open>filterOutbounds\<close> keeps exactly the outbounds whose tag passes the
  filters (no include pattern or the tag matches it, and not: an exclude pattern is set
  and the tag matches it), in the provider's order: these are the tags appended to the
  candidate list, the outbounds appended to the provider's cache entry, and the entries
  made in the candidate map. Hence, after a rebuild that succeeds, the cache entry of
  every provider that was fetched is its current list filtered in this way, and the
  tags that pass are among the candidates.
\<close>

theorem filter_keeps_exactly_the_matching_tags:
  "fetch_loop s ds (tgs, cache, m) =
     (tgs @ filter (keeps s) (map Tag ds),
      cache @ filter (\<lambda>d. keeps s (Tag d)) ds,
      fold register (filter (\<lambda>d. keeps s (Tag d)) ds) m)
   \<and> (filterOutbounds tag s w = Inr ((tgs', m', None), s', w')
        \<and> p \<in> set (providerTags s) \<and> providers s p = Some (Some r)
        \<and> (p = tag \<or> outboundsCache s p = [])
       \<longrightarrow> outboundsCache s' p = filter (\<lambda>d. keeps s (Tag d)) (Outbounds (provider_state w r))
           \<and> set (filter (keeps s) (map Tag (Outbounds (provider_state w r)))) \<subseteq> set tgs')"
proof (intro conjI impI)
  have "map Tag (filter (\<lambda>d. keeps s (Tag d)) ds) = filter (keeps s) (map Tag ds)"
    by (simp add: filter_map comp_def)
  then show "fetch_loop s ds (tgs, cache, m) =
     (tgs @ filter (keeps s) (map Tag ds),
      cache @ filter (\<lambda>d. keeps s (Tag d)) ds,
      fold register (filter (\<lambda>d. keeps s (Tag d)) ds) m)"
    using fetch_loop_eq [of s ds tgs cache m] by (simp add: survivors_def)
next
  assume a: "filterOutbounds tag s w = Inr ((tgs', m', None), s', w')
        \<and> p \<in> set (providerTags s) \<and> providers s p = Some (Some r)
        \<and> (p = tag \<or> outboundsCache s p = [])"
  then have fo: "filterOutbounds tag s w = Inr ((tgs', m', None), s', w')"
    and p: "p \<in> set (providerTags s)" and r: "providers s p = Some (Some r)"
    and fetched: "p = tag \<or> outboundsCache s p = []"
    by simp_all
  let ?kept = "filter (\<lambda>d. keeps s (Tag d)) (Outbounds (provider_state w r))"
  have c: "contribution s w tag (outboundsCache s) p = ?kept"
    using r fetched by (auto simp: contribution_def survivors_def bound_Outbounds_def)
  show "outboundsCache s' p = ?kept"
    using filterOutbounds_cache [OF fo] p c by (simp add: rebuilt_cache_def)
  have sub: "set ?kept \<subseteq> set (candidates s w tag)"
    using p c by (auto simp: candidates_def)
  have t: "Tag ` set (candidates s w tag) \<subseteq> set tgs'"
  proof (cases "Dependencies s @ map Tag (candidates s w tag) = []")
    case True
    then show ?thesis by simp
  next
    case False
    with filterOutbounds_success [OF fo]
    have "tgs' = Dependencies s @ map Tag (candidates s w tag)" by auto
    then show ?thesis by auto
  qed
  have "set (filter (keeps s) (map Tag (Outbounds (provider_state w r)))) = Tag ` set ?kept"
    by (auto simp: filter_map comp_def)
  with sub t show "set (filter (keeps s) (map Tag (Outbounds (provider_state w r)))) \<subseteq> set tgs'"
    by blast
qed

theorem filter_keeps_exactly_the_matching_tags_witness:
  "fetch_loop demo_selector [hk1, us1, jp1] ([''A''], [], Map.empty) =
     ([''A'', ''hk-1'', ''jp-1''], [hk1, jp1], [''hk-1'' \<mapsto> hk1, ''jp-1'' \<mapsto> jp1])
   \<and> Outbounds (provider_state busy_world 0) = [hk1, us1]
   \<and> outboundsCache (chosen_selector\<lparr>outboundsCache := (outboundsCache chosen_selector)(''p1'' := [hk1])\<rparr>)
        ''p1'' = [hk1]"
proof -
  note defs = chosen_selector_def chosen_world_def started_selector_def started_world_def
    demo_selector_def demo_world_def busy_world_def
  note outs = proxyA_def hk1_def us1_def jp1_def
  let ?s' = "chosen_selector\<lparr>outboundsCache := (outboundsCache chosen_selector)(''p1'' := [hk1])\<rparr>"
  let ?w' = "busy_world\<lparr>trace := trace busy_world @ [OutboundsCalled ''p1'']\<rparr>"
  have h: "filterOutbounds ''p1'' chosen_selector busy_world =
     Inr (([''A'', ''hk-1'', ''jp-1''],
           [''A'' \<mapsto> proxyA, ''hk-1'' \<mapsto> hk1, ''jp-1'' \<mapsto> jp1], None), ?s', ?w')"
    by (simp add: filterOutbounds_def defs outs MatchString_def Let_def)
  have b: "''p1'' \<in> set (providerTags chosen_selector)"
    "providers chosen_selector ''p1'' = Some (Some 0)"
    "Outbounds (provider_state busy_world 0) = [hk1, us1]"
    by (simp_all add: defs)
  have k: "filter (\<lambda>d. keeps chosen_selector (Tag d)) [hk1, us1] = [hk1]"
    by (simp add: keeps_def MatchString_def defs outs)
  have one: "fetch_loop demo_selector [hk1, us1, jp1] ([''A''], [], Map.empty) =
     ([''A'', ''hk-1'', ''jp-1''], [hk1, jp1], [''hk-1'' \<mapsto> hk1, ''jp-1'' \<mapsto> jp1])"
    using filter_keeps_exactly_the_matching_tags
      [where s = demo_selector and ds = "[hk1, us1, jp1]" and tgs = "[''A'']" and cache = "[]"
         and m = Map.empty]
    by (simp add: keeps_def MatchString_def register_def demo_selector_def outs)
  have two: "outboundsCache ?s' ''p1'' = [hk1]"
    using filter_keeps_exactly_the_matching_tags
      [where s = chosen_selector and w = busy_world and tag = "''p1''" and p = "''p1''"
         and r = 0 and s' = ?s' and w' = ?w' and tgs' = "[''A'', ''hk-1'', ''jp-1'']"
         and m' = "[''A'' \<mapsto> proxyA, ''hk-1'' \<mapsto> hk1, ''jp-1'' \<mapsto> jp1]"]
      h b k
    by simp
  from one b(3) two show ?thesis by simp
qed

section \<open>Resolving the selection\<close>

text \<open>
  C2. For a Selector whose candidate map is not empty (and lists the same tags as the
  candidate list, as every rebuild leaves it), \<open>outboundSelect\<close> resolves in strict
  priority order: when the Selector has a tag of its own and the persisted store holds
  a prior choice \<open>S\<close> that is a key of the candidate map, the result is the map's entry
  for \<open>S\<close>, whatever the default tag is; otherwise, when a default tag is configured,
  the result is the map's entry for it, and an error if the map has none; otherwise the
  result is the entry of the first tag of the candidate list.
\<close>

theorem outboundSelect_priority:
  assumes "outbounds s \<noteq> Map.empty" and "dom (outbounds s) = set (tags s)"
  shows "(persisted_tag s w = Some S \<and> outbounds s S = Some d
            \<longrightarrow> outboundSelect s w = Inr (Some d, None))
       \<and> ((\<forall>S. persisted_tag s w = Some S \<longrightarrow> outbounds s S = None) \<and> defaultTag s \<noteq> []
            \<longrightarrow> outboundSelect s w =
                 (case outbounds s (defaultTag s) of
                    Some d \<Rightarrow> Inr (Some d, None)
                  | None \<Rightarrow> Inr (None, Some (DefaultOutboundNotFound (defaultTag s)))))
       \<and> ((\<forall>S. persisted_tag s w = Some S \<longrightarrow> outbounds s S = None) \<and> defaultTag s = []
            \<longrightarrow> tags s \<noteq> [] \<and> outbounds s (hd (tags s)) \<noteq> None
                \<and> outboundSelect s w = Inr (outbounds s (hd (tags s)), None))"
proof -
  from assms have ne: "tags s \<noteq> []" by auto
  then obtain t ts where ts: "tags s = t # ts" by (cases "tags s") auto
  with assms(2) have hd: "outbounds s t \<noteq> None" by auto
  have a: "persisted_tag s w = Some S \<and> outbounds s S = Some d
            \<longrightarrow> outboundSelect s w = Inr (Some d, None)"
    by (auto simp: persisted_tag_def outboundSelect_def Let_def split: option.splits if_splits)
  have none: "(\<forall>S. persisted_tag s w = Some S \<longrightarrow> outbounds s S = None) \<Longrightarrow>
     (if adapter_Tag s \<noteq> [] then
              (case cacheFile s of
                 None \<Rightarrow> None
               | Some c \<Rightarrow>
                   (let sel = LoadSelected (cache_files w c) (adapter_Tag s)
                    in if sel \<noteq> [] then outbounds s sel else None))
            else None) = None"
    by (auto simp: persisted_tag_def Let_def split: option.splits if_splits)
  have b: "(\<forall>S. persisted_tag s w = Some S \<longrightarrow> outbounds s S = None) \<and> defaultTag s \<noteq> []
            \<longrightarrow> outboundSelect s w =
                 (case outbounds s (defaultTag s) of
                    Some d \<Rightarrow> Inr (Some d, None)
                  | None \<Rightarrow> Inr (None, Some (DefaultOutboundNotFound (defaultTag s))))"
    unfolding outboundSelect_def using none by (auto split: option.splits)
  have c: "(\<forall>S. persisted_tag s w = Some S \<longrightarrow> outbounds s S = None) \<and> defaultTag s = []
            \<longrightarrow> tags s \<noteq> [] \<and> outbounds s (hd (tags s)) \<noteq> None
                \<and> outboundSelect s w = Inr (outbounds s (hd (tags s)), None)"
    unfolding outboundSelect_def using none ts hd by auto
  from a b c show ?thesis by blast
qed

theorem outboundSelect_priority_witness:
  "persisted_tag chosen_selector chosen_world = Some ''jp-1''
   \<and> outboundSelect (chosen_selector\<lparr>defaultTag := ''A''\<rparr>) chosen_world = Inr (Some jp1, None)
   \<and> outboundSelect (started_selector\<lparr>defaultTag := ''hk-1''\<rparr>) started_world = Inr (Some hk1, None)
   \<and> outboundSelect started_selector started_world = Inr (Some proxyA, None)"
proof -
  note defs = chosen_selector_def chosen_world_def started_selector_def started_world_def
    demo_selector_def demo_world_def persisted_tag_def
  have n1: "outbounds (chosen_selector\<lparr>defaultTag := ''A''\<rparr>) \<noteq> Map.empty"
    and n2: "outbounds (started_selector\<lparr>defaultTag := ''hk-1''\<rparr>) \<noteq> Map.empty"
    and n3: "outbounds started_selector \<noteq> Map.empty"
    by (auto simp: defs fun_eq_iff)
  have d1: "dom (outbounds (chosen_selector\<lparr>defaultTag := ''A''\<rparr>))
              = set (tags (chosen_selector\<lparr>defaultTag := ''A''\<rparr>))"
    and d2: "dom (outbounds (started_selector\<lparr>defaultTag := ''hk-1''\<rparr>))
              = set (tags (started_selector\<lparr>defaultTag := ''hk-1''\<rparr>))"
    and d3: "dom (outbounds started_selector) = set (tags started_selector)"
    by (auto simp: defs)
  have p1: "persisted_tag chosen_selector chosen_world = Some ''jp-1''"
    and p1': "persisted_tag (chosen_selector\<lparr>defaultTag := ''A''\<rparr>) chosen_world = Some ''jp-1''"
    and p2: "persisted_tag (started_selector\<lparr>defaultTag := ''hk-1''\<rparr>) started_world = None"
    and p3: "persisted_tag started_selector started_world = None"
    by (simp_all add: defs)
  have a: "outboundSelect (chosen_selector\<lparr>defaultTag := ''A''\<rparr>) chosen_world = Inr (Some jp1, None)"
    using outboundSelect_priority [OF n1 d1, of chosen_world "''jp-1''" jp1] p1'
    by (simp add: defs)
  have b: "outboundSelect (started_selector\<lparr>defaultTag := ''hk-1''\<rparr>) started_world
             = Inr (Some hk1, None)"
    using outboundSelect_priority [OF n2 d2, of started_world] p2
    by (simp add: defs)
  have c: "outboundSelect started_selector started_world = Inr (Some proxyA, None)"
    using outboundSelect_priority [OF n3 d3, of started_world] p3
    by (simp add: defs)
  from p1 a b c show ?thesis by simp
qed

section \<open>Explicit selection\<close>

lemma StoreSelected_trace:
  "StoreSelected c g t w = (ok, w') \<Longrightarrow> trace w' = trace w @ [StoreSelectedCalled g t]"
  by (auto simp: StoreSelected_def Let_def split: if_splits)

text \<open>
  C5. \<open>SelectOutbound\<close> is idempotent. For a candidate tag, the call returns true and
  leaves the tag's outbound selected; calling it again with the same tag returns true
  and changes neither the Selector nor the world, so the second call writes nothing to
  the persisted store and sends no interrupt. The same holds for a first call whose tag
  is already selected. Over the two calls there is one persistence write when the first
  call changed the selection of a Selector that has a tag and a cache file, and none
  otherwise.
\<close>

theorem SelectOutbound_idempotent:
  assumes "outbounds s tag = Some d" and "SelectOutbound tag s w = (r1, s1, w1)"
  shows "r1 \<and> selected s1 = Some d
       \<and> SelectOutbound tag s1 w1 = (True, s1, w1)
       \<and> (selected s = Some d \<longrightarrow> s1 = s \<and> w1 = w)
       \<and> store_writes (events_since w w1) =
           (if selected s \<noteq> Some d \<and> adapter_Tag s \<noteq> [] \<and> ctx_cacheFile w \<noteq> None then 1 else 0)
       \<and> interrupts (events_since w w1) = (if selected s \<noteq> Some d then 1 else 0)
       \<and> store_writes (events_since w1 (snd (snd (SelectOutbound tag s1 w1)))) = 0
       \<and> interrupts (events_since w1 (snd (snd (SelectOutbound tag s1 w1)))) = 0"
proof (cases "selected s = Some d")
  case True
  with assms have "r1 \<and> s1 = s \<and> w1 = w"
    by (auto simp: SelectOutbound_def)
  with True assms(1) show ?thesis
    by (simp add: SelectOutbound_def events_since_def store_writes_def interrupts_def)
next
  case False
  define w0 where "w0 = (if adapter_Tag s \<noteq> [] then
                         (case ctx_cacheFile w of
                            None \<Rightarrow> w
                          | Some c \<Rightarrow>
                              (case StoreSelected c (adapter_Tag s) tag w of
                                 (True, w') \<Rightarrow> w'
                               | (False, w') \<Rightarrow> w'\<lparr>trace := trace w' @ [LoggedError]\<rparr>))
                       else w)"
  from False assms have r: "r1" and s1: "s1 = s\<lparr>selected := Some d\<rparr>"
    and w1: "w1 = w0\<lparr>trace := trace w0 @ [Interrupted (interruptExternalConnections s)]\<rparr>"
    by (auto simp: SelectOutbound_def Let_def w0_def)
  have second: "SelectOutbound tag s1 w1 = (True, s1, w1)"
    using assms(1) s1 by (simp add: SelectOutbound_def)
  have t0: "\<exists>evs. trace w0 = trace w @ evs
              \<and> filter is_interrupt evs = []
              \<and> length (filter is_store evs) =
                   (if adapter_Tag s \<noteq> [] \<and> ctx_cacheFile w \<noteq> None then 1 else 0)"
  proof (cases "adapter_Tag s \<noteq> [] \<and> ctx_cacheFile w \<noteq> None")
    case no: False
    then have "w0 = w" by (auto simp: w0_def split: option.splits)
    with no show ?thesis by auto
  next
    case yes: True
    then obtain c where c: "ctx_cacheFile w = Some c" by auto
    obtain ok w' where st: "StoreSelected c (adapter_Tag s) tag w = (ok, w')"
      by (cases "StoreSelected c (adapter_Tag s) tag w") auto
    from StoreSelected_trace [OF st]
    have tr: "trace w' = trace w @ [StoreSelectedCalled (adapter_Tag s) tag]" .
    have "trace w0 = trace w @ (if ok then [StoreSelectedCalled (adapter_Tag s) tag]
                                else [StoreSelectedCalled (adapter_Tag s) tag, LoggedError])"
      using yes c st tr by (auto simp: w0_def)
    with yes show ?thesis by auto
  qed
  then obtain evs where evs: "trace w0 = trace w @ evs" "filter is_interrupt evs = []"
     "length (filter is_store evs) =
                   (if adapter_Tag s \<noteq> [] \<and> ctx_cacheFile w \<noteq> None then 1 else 0)"
    by blast
  have es: "events_since w w1 = evs @ [Interrupted (interruptExternalConnections s)]"
    using evs(1) w1 by (simp add: events_since_def)
  have quiet: "events_since w1 (snd (snd (SelectOutbound tag s1 w1))) = []"
    unfolding second by (simp add: events_since_def)
  from False r s1 second evs(2,3) show ?thesis
    unfolding es quiet store_writes_def interrupts_def by auto
qed

theorem SelectOutbound_idempotent_witness:
  "SelectOutbound ''jp-1'' started_selector started_world = (True, chosen_selector, chosen_world)
   \<and> SelectOutbound ''jp-1'' chosen_selector chosen_world = (True, chosen_selector, chosen_world)
   \<and> store_writes (events_since started_world chosen_world) = 1
   \<and> interrupts (events_since started_world chosen_world) = 1
   \<and> store_writes (events_since chosen_world
         (snd (snd (SelectOutbound ''jp-1'' chosen_selector chosen_world)))) = 0
   \<and> interrupts (events_since chosen_world
         (snd (snd (SelectOutbound ''jp-1'' chosen_selector chosen_world)))) = 0"
proof -
  note defs = chosen_selector_def chosen_world_def started_selector_def started_world_def
    demo_selector_def demo_world_def
  have h1: "outbounds started_selector ''jp-1'' = Some jp1"
    by (simp add: defs)
  have h2: "SelectOutbound ''jp-1'' started_selector started_world
              = (True, chosen_selector, chosen_world)"
    by (simp add: SelectOutbound_def StoreSelected_def defs Let_def jp1_def proxyA_def)
  have c: "selected started_selector \<noteq> Some jp1 \<and> adapter_Tag started_selector \<noteq> []
             \<and> ctx_cacheFile started_world \<noteq> None"
    by (simp add: defs jp1_def proxyA_def)
  from SelectOutbound_idempotent [OF h1 h2] h2 c show ?thesis by auto
qed

section \<open>Rebuilding the candidates\<close>

text \<open>
  C4. Cache reuse. In a rebuild that succeeds, a bound provider tag \<open>p\<close> other than the
  just-changed tag that has a cache entry contributes exactly its cached list, at its
  position among the provider tags: the candidate sequence from which the tag list and
  the map are built holds the cached outbounds themselves, in their order. The provider
  is not asked for its outbounds and its cache entry stays as it was. \<open>Outbounds()\<close>
  is called only for the just-changed tag and for tags without a cache entry, and the
  just-changed tag, when it is bound, is fetched again and its cache entry becomes its
  filtered current list.
\<close>

theorem filterOutbounds_reuses_cache:
  assumes "filterOutbounds tag s w = Inr ((tgs, m, None), s', w')"
    and "p \<in> set (providerTags s)" and "p \<noteq> tag" and "outboundsCache s p \<noteq> []"
  shows "tgs = Dependencies s @ map Tag (candidates s w tag)
       \<and> m = fold register (candidates s w tag) (static_map s w)
       \<and> (\<exists>before after. providerTags s = before @ p # after
            \<and> candidates s w tag =
                concat (map (contribution s w tag (outboundsCache s)) before)
                @ outboundsCache s p
                @ concat (map (contribution s w tag (outboundsCache s)) after))
       \<and> outboundsCache s' p = outboundsCache s p
       \<and> OutboundsCalled p \<notin> set (events_since w w')
       \<and> (\<forall>q. OutboundsCalled q \<in> set (events_since w w') \<longrightarrow> q = tag \<or> outboundsCache s q = [])
       \<and> (tag \<in> set (providerTags s) \<longrightarrow>
            OutboundsCalled tag \<in> set (events_since w w')
            \<and> outboundsCache s' tag = survivors s (bound_Outbounds s w tag))"
proof -
  have cp: "contribution s w tag (outboundsCache s) p = outboundsCache s p"
    using assms(3,4) by (simp add: contribution_def)
  from assms(2) obtain before after where ba: "providerTags s = before @ p # after"
    by (auto dest: split_list)
  have pos: "candidates s w tag =
                concat (map (contribution s w tag (outboundsCache s)) before)
                @ outboundsCache s p
                @ concat (map (contribution s w tag (outboundsCache s)) after)"
    by (simp add: candidates_def ba cp)
  with assms(4) have ne: "Dependencies s @ map Tag (candidates s w tag) \<noteq> []" by simp
  from filterOutbounds_success [OF assms(1)] ne
  have shape: "tgs = Dependencies s @ map Tag (candidates s w tag)"
              "m = fold register (candidates s w tag) (static_map s w)"
    by auto
  have cache: "outboundsCache s' p = outboundsCache s p"
    using filterOutbounds_cache [OF assms(1)] assms(2) cp by (simp add: rebuilt_cache_def)
  note tr = filterOutbounds_trace [OF assms(1)]
  have only: "\<forall>q. OutboundsCalled q \<in> set (events_since w w') \<longrightarrow> q = tag \<or> outboundsCache s q = []"
    using tr by auto
  with assms(3,4) have quiet: "OutboundsCalled p \<notin> set (events_since w w')" by auto
  have changed: "tag \<in> set (providerTags s) \<longrightarrow>
            OutboundsCalled tag \<in> set (events_since w w')
            \<and> outboundsCache s' tag = survivors s (bound_Outbounds s w tag)"
    using tr filterOutbounds_cache [OF assms(1)]
    by (auto simp: rebuilt_cache_def contribution_def)
  from shape ba pos cache quiet only changed show ?thesis by blast
qed

theorem filterOutbounds_reuses_cache_witness:
  "filterOutbounds ''p1'' chosen_selector busy_world =
     Inr (([''A'', ''hk-1'', ''jp-1''],
           [''A'' \<mapsto> proxyA, ''hk-1'' \<mapsto> hk1, ''jp-1'' \<mapsto> jp1], None),
          chosen_selector\<lparr>outboundsCache := (outboundsCache chosen_selector)(''p1'' := [hk1])\<rparr>,
          busy_world\<lparr>trace := trace busy_world @ [OutboundsCalled ''p1'']\<rparr>)
   \<and> outboundsCache chosen_selector ''p2'' = [jp1]
   \<and> Outbounds (provider_state busy_world 1) = []
   \<and> candidates chosen_selector busy_world ''p1'' = [hk1, jp1]
   \<and> OutboundsCalled ''p2'' \<notin> set (events_since busy_world
         (busy_world\<lparr>trace := trace busy_world @ [OutboundsCalled ''p1'']\<rparr>))
   \<and> OutboundsCalled ''p1'' \<in> set (events_since busy_world
         (busy_world\<lparr>trace := trace busy_world @ [OutboundsCalled ''p1'']\<rparr>))"
proof -
  note defs = chosen_selector_def chosen_world_def started_selector_def started_world_def
    demo_selector_def demo_world_def busy_world_def
  note outs = proxyA_def hk1_def us1_def jp1_def
  have h1: "filterOutbounds ''p1'' chosen_selector busy_world =
     Inr (([''A'', ''hk-1'', ''jp-1''],
           [''A'' \<mapsto> proxyA, ''hk-1'' \<mapsto> hk1, ''jp-1'' \<mapsto> jp1], None),
          chosen_selector\<lparr>outboundsCache := (outboundsCache chosen_selector)(''p1'' := [hk1])\<rparr>,
          busy_world\<lparr>trace := trace busy_world @ [OutboundsCalled ''p1'']\<rparr>)"
    by (simp add: filterOutbounds_def defs outs MatchString_def Let_def)
  have h2: "''p2'' \<in> set (providerTags chosen_selector)"
    and h3: "''p2'' \<noteq> ''p1''"
    and h4: "outboundsCache chosen_selector ''p2'' \<noteq> []"
    and h5: "''p1'' \<in> set (providerTags chosen_selector)"
    by (simp_all add: defs)
  have c: "outboundsCache chosen_selector ''p2'' = [jp1]"
    and o: "Outbounds (provider_state busy_world 1) = []"
    by (simp_all add: defs)
  have k: "candidates chosen_selector busy_world ''p1'' = [hk1, jp1]"
    by (simp add: candidates_def contribution_def survivors_def keeps_def bound_Outbounds_def
        MatchString_def defs outs)
  from filterOutbounds_reuses_cache [OF h1 h2 h3 h4] h1 h5 c o k show ?thesis by simp
qed

text \<open>
  C10. A bound provider whose fetch left no surviving outbound gets the nil cache entry,
  and a nil entry is never served: the next rebuild, whatever tag it is for and whatever
  the world has become, calls \<open>Outbounds()\<close> on that provider again and stores its
  filtered current list. (Between the two rebuilds the Selector may have taken the new
  tag list and map and changed its selection, as \<open>UpdateOutbounds\<close> does.)
\<close>

theorem empty_fetch_is_never_cached:
  assumes "filterOutbounds tag1 s w = Inr ((tgs1, m1, None), s1, w1)"
    and "p \<in> set (providerTags s)"
    and "p = tag1 \<or> outboundsCache s p = []"
    and "survivors s (bound_Outbounds s w p) = []"
    and "filterOutbounds tag2 (s1\<lparr>tags := tgs1, outbounds := m1, selected := x\<rparr>) w2
           = Inr ((tgs2, m2, None), s2, w2')"
  shows "OutboundsCalled p \<in> set (events_since w w1)
       \<and> outboundsCache s1 p = []
       \<and> OutboundsCalled p \<in> set (events_since w2 w2')
       \<and> outboundsCache s2 p = survivors s (bound_Outbounds s w2 p)"
proof -
  let ?sx = "s1\<lparr>tags := tgs1, outbounds := m1, selected := x\<rparr>"
  from filterOutbounds_success [OF assms(1)]
  have s1: "s1 = s\<lparr>outboundsCache := rebuilt_cache s w tag1\<rparr>" by auto
  have c1: "outboundsCache s1 p = []"
    using assms(2,3,4) by (auto simp: s1 rebuilt_cache_def contribution_def)
  have f1: "OutboundsCalled p \<in> set (events_since w w1)"
    using filterOutbounds_trace [OF assms(1)] assms(2,3) by auto
  have px: "p \<in> set (providerTags ?sx)" "outboundsCache ?sx p = []"
    using assms(2) c1 by (simp_all add: s1)
  have f2: "OutboundsCalled p \<in> set (events_since w2 w2')"
    using filterOutbounds_trace [OF assms(5)] px by auto
  have same: "survivors ?sx = survivors s" "bound_Outbounds ?sx w2 p = bound_Outbounds s w2 p"
    by (simp_all add: s1 survivors_def keeps_def bound_Outbounds_def fun_eq_iff)
  have c2: "outboundsCache s2 p = survivors s (bound_Outbounds s w2 p)"
    using filterOutbounds_cache [OF assms(5)] px same
    by (simp add: rebuilt_cache_def contribution_def)
  from f1 c1 f2 c2 show ?thesis by simp
qed

theorem empty_fetch_is_never_cached_witness:
  "filterOutbounds ''p2'' chosen_selector busy_world =
     Inr (([''A'', ''hk-1''], [''A'' \<mapsto> proxyA, ''hk-1'' \<mapsto> hk1], None),
          chosen_selector\<lparr>outboundsCache := (\<lambda>p. [])(''p1'' := [hk1], ''p2'' := [])\<rparr>,
          busy_world\<lparr>trace := trace busy_world @ [OutboundsCalled ''p2'']\<rparr>)
   \<and> filterOutbounds ''p1'' stale_selector chosen_world =
     Inr (([''A'', ''hk-1'', ''jp-1''],
           [''A'' \<mapsto> proxyA, ''hk-1'' \<mapsto> hk1, ''jp-1'' \<mapsto> jp1], None),
          stale_selector\<lparr>outboundsCache := (\<lambda>p. [])(''p1'' := [hk1], ''p2'' := [jp1])\<rparr>,
          chosen_world\<lparr>trace := trace chosen_world @ [OutboundsCalled ''p1'', OutboundsCalled ''p2'']\<rparr>)
   \<and> OutboundsCalled ''p2'' \<in> set (events_since chosen_world
         (chosen_world\<lparr>trace := trace chosen_world @ [OutboundsCalled ''p1'', OutboundsCalled ''p2'']\<rparr>))"
proof -
  note defs = chosen_selector_def chosen_world_def started_selector_def started_world_def
    demo_selector_def demo_world_def busy_world_def stale_selector_def
  note outs = proxyA_def hk1_def us1_def jp1_def
  let ?s1 = "chosen_selector\<lparr>outboundsCache := (\<lambda>p. [])(''p1'' := [hk1], ''p2'' := [])\<rparr>"
  have h1: "filterOutbounds ''p2'' chosen_selector busy_world =
     Inr (([''A'', ''hk-1''], [''A'' \<mapsto> proxyA, ''hk-1'' \<mapsto> hk1], None), ?s1,
          busy_world\<lparr>trace := trace busy_world @ [OutboundsCalled ''p2'']\<rparr>)"
    by (simp add: filterOutbounds_def defs outs MatchString_def Let_def)
  have h2: "''p2'' \<in> set (providerTags chosen_selector)"
    by (simp add: defs)
  have h3: "''p2'' = ''p2'' \<or> outboundsCache chosen_selector ''p2'' = []"
    by simp
  have h4: "survivors chosen_selector (bound_Outbounds chosen_selector busy_world ''p2'') = []"
    by (simp add: survivors_def bound_Outbounds_def defs)
  have sx: "?s1\<lparr>tags := [''A'', ''hk-1''], outbounds := [''A'' \<mapsto> proxyA, ''hk-1'' \<mapsto> hk1],
               selected := Some jp1\<rparr> = stale_selector"
    by (simp add: defs)
  have h5: "filterOutbounds ''p1''
              (?s1\<lparr>tags := [''A'', ''hk-1''], outbounds := [''A'' \<mapsto> proxyA, ''hk-1'' \<mapsto> hk1],
                    selected := Some jp1\<rparr>) chosen_world =
     Inr (([''A'', ''hk-1'', ''jp-1''],
           [''A'' \<mapsto> proxyA, ''hk-1'' \<mapsto> hk1, ''jp-1'' \<mapsto> jp1], None),
          stale_selector\<lparr>outboundsCache := (\<lambda>p. [])(''p1'' := [hk1], ''p2'' := [jp1])\<rparr>,
          chosen_world\<lparr>trace := trace chosen_world @ [OutboundsCalled ''p1'', OutboundsCalled ''p2'']\<rparr>)"
    unfolding sx by (simp add: filterOutbounds_def defs outs MatchString_def Let_def)
  from empty_fetch_is_never_cached [OF h1 h2 h3 h4 h5] h1 h5 [unfolded sx]
  show ?thesis by simp
qed

text \<open>
  C9. Fallback on empty candidates. When a Selector has no static tags (and hence no
  default tag, which would have to be one of them) and every bound provider tag
  contributes no outbound, \<open>filterOutbounds\<close> returns the single tag \<open>Compatible\<close>,
  mapped to the outbound the outbound manager resolves for that tag.
\<close>

theorem filterOutbounds_falls_back_to_Compatible:
  assumes "Dependencies s = []" and "defaultTag s = []"
    and "\<forall>p\<in>set (providerTags s).
           (\<exists>r. providers s p = Some (Some r)) \<and> contribution s w tag (outboundsCache s) p = []"
    and "outbound_manager w ''Compatible'' = Some d" and "Tag d = ''Compatible''"
  shows "\<exists>w'. filterOutbounds tag s w =
           Inr (([''Compatible''], [''Compatible'' \<mapsto> d], None),
                s\<lparr>outboundsCache := rebuilt_cache s w tag\<rparr>, w')"
proof -
  have st: "static_loop (outbound_manager w) 0 (Dependencies s) Map.empty = Inr Map.empty"
    using assms(1) by simp
  from assms(3) have "\<forall>p\<in>set (providerTags s). \<exists>r. providers s p = Some (Some r)" by blast
  from provider_loop_ok [OF this]
  obtain tgs1 m1 cache1 evs1 where
    pl: "provider_loop s w tag (providerTags s) (Dependencies s, Map.empty, outboundsCache s, [])
           = Inr (tgs1, m1, cache1, evs1)"
    by (metis prod_cases4)
  have z: "concat (map (contribution s w tag (outboundsCache s)) (providerTags s)) = []"
    using assms(3) by simp
  from provider_loop_eq [OF pl] z assms(1)
  have r: "tgs1 = []" "m1 = Map.empty" "cache1 = rebuilt_cache s w tag"
    by (simp_all add: map_concat comp_def rebuilt_cache_def)
  show ?thesis
    using assms(2,4,5) by (simp add: filterOutbounds_def st pl r Let_def)
qed

theorem filterOutbounds_falls_back_to_Compatible_witness:
  "Outbounds (provider_state busy_world 1) = []
   \<and> filterOutbounds [] provider_only_selector busy_world =
       Inr (([''Compatible''], [''Compatible'' \<mapsto> compatible], None),
            provider_only_selector\<lparr>outboundsCache := rebuilt_cache provider_only_selector busy_world []\<rparr>,
            busy_world\<lparr>trace := trace busy_world @ [OutboundsCalled ''p2'']\<rparr>)"
proof -
  note defs = provider_only_selector_def chosen_world_def started_world_def
    demo_selector_def demo_world_def busy_world_def
  have h1: "Dependencies provider_only_selector = []"
    and h2: "defaultTag provider_only_selector = []"
    and h4: "outbound_manager busy_world ''Compatible'' = Some compatible"
    and h5: "Tag compatible = ''Compatible''"
    and o: "Outbounds (provider_state busy_world 1) = []"
    by (simp_all add: defs compatible_def)
  have h3: "\<forall>p\<in>set (providerTags provider_only_selector).
           (\<exists>r. providers provider_only_selector p = Some (Some r))
           \<and> contribution provider_only_selector busy_world []
                 (outboundsCache provider_only_selector) p = []"
    by (simp add: defs contribution_def survivors_def bound_Outbounds_def)
  from filterOutbounds_falls_back_to_Compatible [OF h1 h2 h3 h4 h5]
  obtain w' where r: "filterOutbounds [] provider_only_selector busy_world =
           Inr (([''Compatible''], [''Compatible'' \<mapsto> compatible], None),
                provider_only_selector\<lparr>outboundsCache :=
                  rebuilt_cache provider_only_selector busy_world []\<rparr>, w')"
    by blast
  have "snd (snd (projr (filterOutbounds [] provider_only_selector busy_world)))
          = busy_world\<lparr>trace := trace busy_world @ [OutboundsCalled ''p2'']\<rparr>"
    by (simp add: filterOutbounds_def defs compatible_def Let_def)
  with r have "w' = busy_world\<lparr>trace := trace busy_world @ [OutboundsCalled ''p2'']\<rparr>"
    by simp
  with r o show ?thesis by simp
qed

section \<open>Provider-driven reconciliation\<close>

text \<open>
  C3. Debounce rule of \<open>UpdateOutbounds(tag)\<close> for a bound tag. Whenever some other
  bound provider, listed by the provider manager, reports an update in progress, the
  call returns nil, the Selector takes the tag list and the map that \<open>filterOutbounds\<close>
  returned, and there is no reselection: the active selection is the one before the
  call, nothing is written to the persisted store and no interrupt is sent. Read the
  other way round, a reselection happens only when no other bound provider is
  updating.
\<close>

theorem UpdateOutbounds_debounce:
  assumes "providers s tag \<noteq> None"
    and "filterOutbounds tag s w = Inr ((tgs, m, e), s1, w1)"
    and "providers s q = Some (Some r)"
    and "r \<in> set (manager_Providers w)"
    and "provider_Tag (provider_state w r) \<noteq> tag"
    and "IsUpdating (provider_state w r)"
  shows "UpdateOutbounds tag s w = Inr (None, s1\<lparr>tags := tgs, outbounds := m\<rparr>, w1)
       \<and> selected (s1\<lparr>tags := tgs, outbounds := m\<rparr>) = selected s
       \<and> store_writes (events_since w w1) = 0
       \<and> interrupts (events_since w w1) = 0"
proof -
  from filterOutbounds_frame [OF assms(2)] obtain c new where
    f: "s1 = s\<lparr>outboundsCache := c\<rparr>" "w1 = w\<lparr>trace := trace w @ new\<rparr>"
       "\<forall>ev\<in>set new. \<exists>q. ev = OutboundsCalled q"
    by blast
  have busy: "list_ex (\<lambda>p. provider_Tag (provider_state w1 p) \<noteq> tag
                          \<and> IsUpdating (provider_state w1 p)) (manager_Providers w1)"
    using assms(4,5,6) f(2) by (auto simp: list_ex_iff)
  from assms(1) obtain b where b: "providers s tag = Some b" by auto
  have u: "UpdateOutbounds tag s w = Inr (None, s1\<lparr>tags := tgs, outbounds := m\<rparr>, w1)"
    unfolding UpdateOutbounds_def b assms(2) using busy by (simp add: Let_def)
  have sel: "selected (s1\<lparr>tags := tgs, outbounds := m\<rparr>) = selected s"
    by (simp add: f(1))
  have ev: "events_since w w1 = new"
    by (simp add: events_since_def f(2))
  from f(3) have "filter is_store new = []" "filter is_interrupt new = []"
    by (auto simp: filter_empty_conv)
  with u sel ev show ?thesis by (simp add: store_writes_def interrupts_def)
qed

theorem UpdateOutbounds_debounce_witness:
  "UpdateOutbounds ''p2'' chosen_selector busy_world =
     Inr (None, stale_selector, busy_world\<lparr>trace := trace busy_world @ [OutboundsCalled ''p2'']\<rparr>)
   \<and> IsUpdating (provider_state busy_world 0)
   \<and> selected stale_selector = selected chosen_selector
   \<and> tags stale_selector = [''A'', ''hk-1'']
   \<and> tags chosen_selector = [''A'', ''hk-1'', ''jp-1'']"
proof -
  note defs = chosen_selector_def chosen_world_def started_selector_def started_world_def
    demo_selector_def demo_world_def busy_world_def stale_selector_def
  note outs = proxyA_def hk1_def us1_def jp1_def
  let ?s1 = "chosen_selector\<lparr>outboundsCache := (\<lambda>p. [])(''p1'' := [hk1], ''p2'' := [])\<rparr>"
  have h1: "providers chosen_selector ''p2'' \<noteq> None"
    by (simp add: defs)
  have h2: "filterOutbounds ''p2'' chosen_selector busy_world =
     Inr (([''A'', ''hk-1''], [''A'' \<mapsto> proxyA, ''hk-1'' \<mapsto> hk1], None), ?s1,
          busy_world\<lparr>trace := trace busy_world @ [OutboundsCalled ''p2'']\<rparr>)"
    by (simp add: filterOutbounds_def defs outs MatchString_def Let_def)
  have h3: "providers chosen_selector ''p1'' = Some (Some 0)"
    and h4: "0 \<in> set (manager_Providers busy_world)"
    and h5: "provider_Tag (provider_state busy_world 0) \<noteq> ''p2''"
    and h6: "IsUpdating (provider_state busy_world 0)"
    by (simp_all add: defs)
  have sx: "?s1\<lparr>tags := [''A'', ''hk-1''], outbounds := [''A'' \<mapsto> proxyA, ''hk-1'' \<mapsto> hk1]\<rparr>
              = stale_selector"
    by (simp add: defs)
  have t: "tags stale_selector = [''A'', ''hk-1'']"
          "tags chosen_selector = [''A'', ''hk-1'', ''jp-1'']"
    by (simp_all add: defs)
  from UpdateOutbounds_debounce [OF h1 h2 h3 h4 h5 h6] h6 t show ?thesis
    unfolding sx by simp
qed

section \<open>The active selection and the candidate map\<close>

text \<open>
  C1, as the code has it. The active selection is an outbound of the current candidate
  map after every step that selects: a successful \<open>Start\<close> sets a selection that is in
  the map it built; \<open>SelectOutbound\<close> never touches the map and keeps the selection in
  it; and \<open>UpdateOutbounds\<close> for a bound tag, when its rebuild succeeds, no other
  provider is updating and the outbound manager answers static tags consistently, ends
  with a selection that is in the new map.
\<close>

theorem selection_is_candidate_when_reselected:
  "(Start s w = Inr (None, s', w') \<longrightarrow> selected s' \<noteq> None \<and> selection_is_candidate s')
   \<and> (selection_is_candidate s \<and> SelectOutbound t s w = (b, s', w')
        \<longrightarrow> selection_is_candidate s' \<and> outbounds s' = outbounds s)
   \<and> (providers s tag \<noteq> None \<and> UpdateOutbounds tag s w = Inr (e, s', w')
        \<and> filterOutbounds tag s w = Inr ((tgs, m, None), s1, w1)
        \<and> \<not> other_provider_updating tag w \<and> static_consistent s w
        \<longrightarrow> selected s' \<noteq> None \<and> selection_is_candidate s' \<and> outbounds s' = m)"
proof (intro conjI impI)
  assume "Start s w = Inr (None, s', w')"
  from Start_success [OF this] obtain s1 tgs m s2 detour where
    r: "filterOutbounds [] s1 w = Inr ((tgs, m, None), s2, w')"
       "outboundSelect (s2\<lparr>tags := tgs, outbounds := m, cacheFile := ctx_cacheFile w'\<rparr>) w'
             = Inr (detour, None)"
       "s' = s2\<lparr>tags := tgs, outbounds := m, cacheFile := ctx_cacheFile w', selected := detour\<rparr>"
    by blast
  from filterOutbounds_dom [OF r(1)]
  have "dom (outbounds (s2\<lparr>tags := tgs, outbounds := m, cacheFile := ctx_cacheFile w'\<rparr>))
          = set (tags (s2\<lparr>tags := tgs, outbounds := m, cacheFile := ctx_cacheFile w'\<rparr>))"
    by simp
  from outboundSelect_member [OF this r(2)] obtain d k where
    d: "detour = Some d" "m k = Some d" by auto
  then have "d \<in> ran m" by (auto intro: ranI)
  with d(1) r(3) show "selected s' \<noteq> None" "selection_is_candidate s'"
    by (simp_all add: selection_is_candidate_def)
next
  assume a: "selection_is_candidate s \<and> SelectOutbound t s w = (b, s', w')"
  from SelectOutbound_cases [of t s w b s' w'] a
  show "selection_is_candidate s'" "outbounds s' = outbounds s"
    by (auto simp: selection_is_candidate_def intro: ranI)
next
  assume a: "providers s tag \<noteq> None \<and> UpdateOutbounds tag s w = Inr (e, s', w')
        \<and> filterOutbounds tag s w = Inr ((tgs, m, None), s1, w1)
        \<and> \<not> other_provider_updating tag w \<and> static_consistent s w"
  then have u: "UpdateOutbounds tag s w = Inr (e, s', w')"
    and bound: "providers s tag \<noteq> None"
    and fo: "filterOutbounds tag s w = Inr ((tgs, m, None), s1, w1)"
    and idle: "\<not> other_provider_updating tag w" and sc: "static_consistent s w"
    by simp_all
  let ?s2 = "s1\<lparr>tags := tgs, outbounds := m\<rparr>"
  from filterOutbounds_frame [OF fo] obtain c new where
    f: "s1 = s\<lparr>outboundsCache := c\<rparr>" "w1 = w\<lparr>trace := trace w @ new\<rparr>"
    by blast
  have idle1: "\<not> list_ex (\<lambda>p. provider_Tag (provider_state w1 p) \<noteq> tag
                          \<and> IsUpdating (provider_state w1 p)) (manager_Providers w1)"
    using idle by (simp add: other_provider_updating_def f(2))
  from bound obtain bnd where bnd: "providers s tag = Some bnd"
    by auto
  have u2: "(case outboundSelect ?s2 w1 of
                        Inl p \<Rightarrow> Inl p
                      | Inr (_, Some e) \<Rightarrow> Inr (None, ?s2, w1)
                      | Inr (None, None) \<Rightarrow> Inl NilDereference
                      | Inr (Some detour, None) \<Rightarrow>
                          (case SelectOutbound (Tag detour) ?s2 w1 of
                             (_, s3, w3) \<Rightarrow> Inr (None, s3, w3))) = Inr (e, s', w')"
    using u unfolding UpdateOutbounds_def bnd fo using idle1 by (simp add: Let_def)
  from filterOutbounds_dom [OF fo]
  have dm: "dom m = set tgs" and deps: "set (Dependencies s) \<subseteq> dom m" by blast+
  from filterOutbounds_success [OF fo]
  have dflt: "defaultTag s \<noteq> [] \<longrightarrow> defaultTag s \<in> set (Dependencies s)" by blast
  from u2 obtain x e2 where os: "outboundSelect ?s2 w1 = Inr (x, e2)"
    by (cases "outboundSelect ?s2 w1") auto
  have e2: "e2 = None"
  proof (cases e2)
    case None
    then show ?thesis .
  next
    case (Some err)
    with os have "defaultTag s \<noteq> [] \<and> m (defaultTag s) = None"
      by (auto simp: outboundSelect_def f(1) Let_def split: option.splits if_splits list.splits)
    with dflt deps show ?thesis by auto
  qed
  have "dom (outbounds ?s2) = set (tags ?s2)" using dm by simp
  from outboundSelect_member [OF this os [unfolded e2]] obtain d k where
    d: "x = Some d" "m k = Some d" by auto
  from filterOutbounds_keys [OF fo sc d(2)] d(2) have md: "outbounds ?s2 (Tag d) = Some d"
    by simp
  obtain b3 s3 w3 where so: "SelectOutbound (Tag d) ?s2 w1 = (b3, s3, w3)"
    by (cases "SelectOutbound (Tag d) ?s2 w1") auto
  from u2 os e2 d(1) so have s': "s' = s3" by simp
  from SelectOutbound_known [OF md so] have "selected s3 = Some d" "outbounds s3 = m"
    by simp_all
  with s' d(2) show "selected s' \<noteq> None" "selection_is_candidate s'" "outbounds s' = m"
    by (auto simp: selection_is_candidate_def intro: ranI)
qed

theorem selection_is_candidate_when_reselected_witness:
  "selected started_selector = Some proxyA
   \<and> selection_is_candidate started_selector
   \<and> selection_is_candidate chosen_selector
   \<and> \<not> other_provider_updating ''p2'' settled_world
   \<and> (\<exists>w'. UpdateOutbounds ''p2'' chosen_selector settled_world
              = Inr (None, stale_selector\<lparr>selected := Some proxyA\<rparr>, w'))
   \<and> selection_is_candidate (stale_selector\<lparr>selected := Some proxyA\<rparr>)"
proof -
  note defs = chosen_selector_def chosen_world_def started_selector_def started_world_def
    demo_selector_def demo_world_def settled_world_def stale_selector_def
  note outs = proxyA_def hk1_def us1_def jp1_def
  let ?s1 = "chosen_selector\<lparr>outboundsCache := (\<lambda>p. [])(''p1'' := [hk1], ''p2'' := [])\<rparr>"
  have a: "Start demo_selector demo_world = Inr (None, started_selector, started_world)"
    by (simp add: Start_def filterOutbounds_def outboundSelect_def defs outs MatchString_def Let_def)
  have b: "SelectOutbound ''jp-1'' started_selector started_world
             = (True, chosen_selector, chosen_world)"
    by (simp add: SelectOutbound_def StoreSelected_def defs outs Let_def)
  have c: "providers chosen_selector ''p2'' \<noteq> None"
    by (simp add: defs)
  have d: "filterOutbounds ''p2'' chosen_selector settled_world =
     Inr (([''A'', ''hk-1''], [''A'' \<mapsto> proxyA, ''hk-1'' \<mapsto> hk1], None), ?s1,
          settled_world\<lparr>trace := trace settled_world @ [OutboundsCalled ''p2'']\<rparr>)"
    by (simp add: filterOutbounds_def defs outs MatchString_def Let_def)
  have e: "\<not> other_provider_updating ''p2'' settled_world"
    by (simp add: other_provider_updating_def defs)
  have f: "static_consistent chosen_selector settled_world"
    by (simp add: static_consistent_def defs outs)
  have g: "\<exists>w'. UpdateOutbounds ''p2'' chosen_selector settled_world
              = Inr (None, stale_selector\<lparr>selected := Some proxyA\<rparr>, w')"
    by (simp add: UpdateOutbounds_def filterOutbounds_def outboundSelect_def SelectOutbound_def
        StoreSelected_def defs outs MatchString_def Let_def)
  then obtain w' where g': "UpdateOutbounds ''p2'' chosen_selector settled_world
              = Inr (None, stale_selector\<lparr>selected := Some proxyA\<rparr>, w')" ..
  have s1: "selected started_selector = Some proxyA \<and> selection_is_candidate started_selector"
    using selection_is_candidate_when_reselected
      [where s = demo_selector and w = demo_world and s' = started_selector
         and w' = started_world] a
    by (simp add: defs)
  have s2: "selection_is_candidate chosen_selector"
    using selection_is_candidate_when_reselected
      [where s = started_selector and t = "''jp-1''" and w = started_world and b = True
         and s' = chosen_selector and w' = chosen_world] s1 b
    by simp
  have s3: "selection_is_candidate (stale_selector\<lparr>selected := Some proxyA\<rparr>)"
    using selection_is_candidate_when_reselected
      [where s = chosen_selector and w = settled_world and tag = "''p2''" and e = None
         and s' = "stale_selector\<lparr>selected := Some proxyA\<rparr>" and w' = w'
         and tgs = "[''A'', ''hk-1'']" and m = "[''A'' \<mapsto> proxyA, ''hk-1'' \<mapsto> hk1]"
         and ?s1.0 = ?s1
         and ?w1.0 = "settled_world\<lparr>trace := trace settled_world @ [OutboundsCalled ''p2'']\<rparr>"]
      c d e f g'
    by simp
  from s1 s2 e g s3 show ?thesis by simp
qed

text \<open>
  C1 as stated does not hold: under the debounce rule \<open>UpdateOutbounds\<close> replaces the
  map and leaves the selection alone. Here the Selector is started, \<open>jp-1\<close> of provider
  \<open>p2\<close> is selected, \<open>p2\<close> reloads to an empty list while \<open>p1\<close> is updating, and
  after \<open>UpdateOutbounds("p2")\<close> the selection \<open>jp-1\<close> is no longer in the map.
\<close>

theorem selection_membership_counterexample:
  "Start demo_selector demo_world = Inr (None, started_selector, started_world)
   \<and> SelectOutbound ''jp-1'' started_selector started_world = (True, chosen_selector, chosen_world)
   \<and> selection_is_candidate chosen_selector
   \<and> UpdateOutbounds ''p2'' chosen_selector busy_world =
       Inr (None, stale_selector, busy_world\<lparr>trace := trace busy_world @ [OutboundsCalled ''p2'']\<rparr>)
   \<and> selected stale_selector = Some jp1
   \<and> \<not> selection_is_candidate stale_selector"
proof -
  note defs = chosen_selector_def chosen_world_def started_selector_def started_world_def
    demo_selector_def demo_world_def busy_world_def stale_selector_def
  note outs = proxyA_def hk1_def us1_def jp1_def
  have a: "Start demo_selector demo_world = Inr (None, started_selector, started_world)"
    by (simp add: Start_def filterOutbounds_def outboundSelect_def defs outs MatchString_def Let_def)
  have b: "SelectOutbound ''jp-1'' started_selector started_world
             = (True, chosen_selector, chosen_world)"
    by (simp add: SelectOutbound_def StoreSelected_def defs outs Let_def)
  have c: "selection_is_candidate chosen_selector"
    by (auto simp: selection_is_candidate_def defs intro!: ranI [of _ "''jp-1''"])
  have d: "UpdateOutbounds ''p2'' chosen_selector busy_world =
       Inr (None, stale_selector, busy_world\<lparr>trace := trace busy_world @ [OutboundsCalled ''p2'']\<rparr>)"
    by (simp add: UpdateOutbounds_def filterOutbounds_def defs outs MatchString_def Let_def)
  have e: "selected stale_selector = Some jp1"
    by (simp add: defs)
  have f: "\<not> selection_is_candidate stale_selector"
    by (simp add: selection_is_candidate_def defs outs)
  from a b c d e f show ?thesis by simp
qed

section \<open>An explicit provider tag the manager does not know\<close>

text \<open>
  C7. The Selector is configured with the explicit provider tags \<open>p1\<close> and \<open>missing\<close>,
  and the provider manager knows no provider \<open>missing\<close>. \<open>Start\<close> drops the error it
  builds for the unknown tag, binds the tag to the nil provider and goes on to build the
  candidates; the provider loop then calls \<open>Outbounds()\<close> on that nil provider, and
  \<open>Start\<close> ends in a nil dereference instead of returning. (By
  \<open>Start_with_unresolved_provider\<close> this is so for every configuration with an
  unresolved explicit tag, unless a static tag or the default tag already fails.)
\<close>

theorem Start_unresolved_provider_panics:
  "manager_Provider demo_world ''missing'' = None
   \<and> Start misconfigured_selector demo_world = Inl NilDereference"
proof -
  note defs = misconfigured_selector_def demo_selector_def demo_world_def
  have a: "manager_Provider demo_world ''missing'' = None"
    by (simp add: defs)
  have b: "\<not> useAllProviders misconfigured_selector"
    and c: "''missing'' \<in> set (providerTags misconfigured_selector)"
    and d: "outboundsCache misconfigured_selector ''missing'' = []"
    by (simp_all add: defs)
  have "\<not> (\<exists>e s'. Start misconfigured_selector demo_world = Inr (Some e, s', demo_world))"
    by (simp add: Start_def filterOutbounds_def defs proxyA_def hk1_def us1_def
        MatchString_def Let_def)
  with Start_with_unresolved_provider [OF b c a d] a show ?thesis by blast
qed

section \<open>Constructing a ProviderLocal\<close>

text \<open>
  C8, as the code has it. \<open>NewProviderLocal\<close> returns an error exactly when the tag is
  empty, the path is empty, the initial load fails to read the file or to parse what it
  read, or the file watcher cannot be created. A provider that is returned holds the
  list parsed from the file that was read, its own tag and a watcher; its timestamp is
  the file's modification time when \<open>os.Stat\<close> succeeded and the zero time otherwise.
\<close>

theorem NewProviderLocal_fails_iff:
  "(isl (NewProviderLocal env tag path) \<longleftrightarrow>
      tag = [] \<or> path = []
      \<or> isl (ReadFile env (resolve_path env path))
      \<or> (\<exists>content. ReadFile env (resolve_path env path) = Inr content
                    \<and> isl (ParseSubscription env content))
      \<or> isl (NewWatcher env (resolve_path env path)))
   \<and> (NewProviderLocal env tag path = Inr p \<longrightarrow>
        (\<exists>content. ReadFile env (resolve_path env path) = Inr content
                  \<and> ParseSubscription env content = Inr (lastOutOpts p))
        \<and> lastUpdated p = (case Stat env (resolve_path env path) of
                             Inr modTime \<Rightarrow> modTime | Inl _ \<Rightarrow> zero_time)
        \<and> local_Tag p = tag \<and> watcher p \<noteq> None)"
proof -
  let ?fp = "resolve_path env path"
  have a: "isl (NewProviderLocal env tag path) \<longleftrightarrow>
      tag = [] \<or> path = []
      \<or> isl (ReadFile env ?fp)
      \<or> (\<exists>content. ReadFile env ?fp = Inr content \<and> isl (ParseSubscription env content))
      \<or> isl (NewWatcher env ?fp)"
    by (auto simp: NewProviderLocal_def reloadFile_result Let_def split: sum.splits)
  have b: "NewProviderLocal env tag path = Inr p \<longrightarrow>
        (\<exists>content. ReadFile env ?fp = Inr content
                  \<and> ParseSubscription env content = Inr (lastOutOpts p))
        \<and> lastUpdated p = (case Stat env ?fp of Inr modTime \<Rightarrow> modTime | Inl _ \<Rightarrow> zero_time)
        \<and> local_Tag p = tag \<and> watcher p \<noteq> None"
    by (auto simp: NewProviderLocal_def reloadFile_result Let_def split: sum.splits if_splits)
  from a b show ?thesis by blast
qed

theorem NewProviderLocal_fails_iff_witness:
  "NewProviderLocal healthy_env ''local'' ''subs.txt'' =
     Inr \<lparr>local_Tag = ''local'',
          lastOutOpts = [OutboundOption ''hk-1'' ''hk-1 us-1'', OutboundOption ''us-1'' ''hk-1 us-1''],
          lastUpdated = 1700000000, watcher = Some 7, updating = False,
          adapter_updates = [([], [OutboundOption ''hk-1'' ''hk-1 us-1'',
                                    OutboundOption ''us-1'' ''hk-1 us-1''])]\<rparr>
   \<and> isl (ParseSubscription garbled_env ''hk-1 us-1'')
   \<and> isl (NewProviderLocal garbled_env ''local'' ''subs.txt'')
   \<and> isl (NewProviderLocal healthy_env [] ''subs.txt'')
   \<and> isl (NewProviderLocal healthy_env ''local'' [])"
proof -
  note defs = healthy_env_def garbled_env_def
  have ok: "NewProviderLocal healthy_env ''local'' ''subs.txt'' =
     Inr \<lparr>local_Tag = ''local'',
          lastOutOpts = [OutboundOption ''hk-1'' ''hk-1 us-1'', OutboundOption ''us-1'' ''hk-1 us-1''],
          lastUpdated = 1700000000, watcher = Some 7, updating = False,
          adapter_updates = [([], [OutboundOption ''hk-1'' ''hk-1 us-1'',
                                    OutboundOption ''us-1'' ''hk-1 us-1''])]\<rparr>"
    by (simp add: NewProviderLocal_def reloadFile_def defs Let_def)
  have r: "ReadFile garbled_env (resolve_path garbled_env ''subs.txt'') = Inr ''hk-1 us-1''"
    and g: "isl (ParseSubscription garbled_env ''hk-1 us-1'')"
    by (simp_all add: defs)
  have f1: "isl (NewProviderLocal garbled_env ''local'' ''subs.txt'')"
    using NewProviderLocal_fails_iff [of garbled_env "''local''" "''subs.txt''"] r g by blast
  have f2: "isl (NewProviderLocal healthy_env [] ''subs.txt'')"
    using NewProviderLocal_fails_iff [of healthy_env "[]" "''subs.txt''"] by blast
  have f3: "isl (NewProviderLocal healthy_env ''local'' [])"
    using NewProviderLocal_fails_iff [of healthy_env "''local''" "[]"] by blast
  have "lastUpdated (projr (NewProviderLocal healthy_env ''local'' ''subs.txt'')) = 1700000000"
    using NewProviderLocal_fails_iff [of healthy_env "''local''" "''subs.txt''"
        "projr (NewProviderLocal healthy_env ''local'' ''subs.txt'')"] ok
    by (simp add: defs)
  with ok g f1 f2 f3 show ?thesis by simp
qed

text \<open>
  C8 as stated does not hold for the stat step: a file that can be read and parsed but
  not inspected still gives a provider, with the zero time as its timestamp.
\<close>

theorem NewProviderLocal_stat_counterexample:
  "isl (Stat stat_denied_env (resolve_path stat_denied_env ''subs.txt''))
   \<and> NewProviderLocal stat_denied_env ''local'' ''subs.txt'' =
     Inr \<lparr>local_Tag = ''local'',
          lastOutOpts = [OutboundOption ''hk-1'' ''hk-1 us-1'', OutboundOption ''us-1'' ''hk-1 us-1''],
          lastUpdated = zero_time, watcher = Some 7, updating = False,
          adapter_updates = [([], [OutboundOption ''hk-1'' ''hk-1 us-1'',
                                    OutboundOption ''us-1'' ''hk-1 us-1''])]\<rparr>"
  by (simp add: NewProviderLocal_def reloadFile_def stat_denied_env_def healthy_env_def Let_def)

end
